theory Spec2Isabelle
  imports Main "HOL-Library.Option_ord" "HOL-Library.Product_Lexorder"
begin

section \<open>The green OA scrape queue (queue\_green\_oa\_scrape.py)\<close>

text \<open>
  The program coordinates through two tables of a relational store, the job queue
  \<open>page_green_scrape_queue\<close> (joined with \<open>page_new\<close>) and the per-domain table
  \<open>domain_scrape_activity\<close>. Every SQL statement of the source is modelled as one
  atomic function on the tables: a statement sent with \<open>autocommit\<close> holds its row locks
  only while it runs, so between two statements no row is locked and
  \<open>for update skip locked\<close> skips nothing.

  Time is a count of seconds (\<open>int\<close>); \<open>now()\<close> reads the clock of the world, and the
  clock advances only where the source sleeps.
\<close>

subsection \<open>Data\<close>

type_synonym timestamp = int
type_synonym domain = string
type_synonym ident = string

text \<open>A row of \<open>domain_scrape_activity\<close>, keyed by its domain; \<open>None\<close> is SQL null.\<close>

record activity =
  started :: "timestamp option"
  finished :: "timestamp option"

text \<open>
  A row of \<open>page_green_scrape_queue\<close>: the columns \<open>started\<close> and \<open>finished\<close> of
  the record above, then \<open>id\<close> and \<open>rand\<close>. The random key is any linearly ordered
  value; integers here.
\<close>

record queue_row = activity +
  queue_id :: ident
  rand :: int

text \<open>
  A row of \<open>page_new\<close>: \<open>id\<close>, \<open>url\<close>, the classification tag \<open>pmh_id\<close> and the columns
  that a scrape overwrites, as a list of column name and value.
\<close>

record page_row =
  page_id :: ident
  url :: string
  pmh_id :: "string option"
  scrape_attrs :: "(string \<times> string) list"

text \<open>
  A \<open>PageNew\<close> object of the Python process: its column attributes and the ORM's
  \<open>_sa_instance_state\<close> entry of its \<open>__dict__\<close> (\<open>None\<close> once the entry is popped).
\<close>

datatype instance_state = Persistent | Transient

record page_obj =
  cols :: page_row
  sa_instance_state :: "instance_state option"

text \<open>What the source can raise.\<close>

datatype error = AttributeError | KeyError | ScrapeError

text \<open>
  The statements the process sends to the store, in the order it sends them: the world
  keeps them as a trace, and the session keeps the ones that wait for a commit.
\<close>

datatype statement =
    Begin_rate_limit domain bool
  | End_rate_limit domain
  | Fetch_chunk "ident list"
  | Bulk_update "page_obj list"
  | Finish_batch timestamp "ident list"
  | Commit bool

record world =
  clock :: timestamp
  domain_scrape_activity :: "domain \<rightharpoonup> activity"
  page_green_scrape_queue :: "queue_row list"
  page_new :: "page_row list"
  session :: "statement list"
  trace :: "statement list"

text \<open>
  What the source imports and this file does not define: \<open>PageNew.scrape\<close> (it returns
  the scraped object or raises), \<open>urlparse(...).netloc\<close>, the constant
  \<open>oa_publisher_equivalent\<close>, and whether the commit of batch number \<open>index\<close> succeeds
  (\<open>safe_commit\<close> returns a truth value).
\<close>

record env =
  scrape :: "page_obj \<Rightarrow> error + page_obj"
  netloc :: "string \<Rightarrow> domain"
  oa_publisher_equivalent :: string
  commit_ok :: "nat \<Rightarrow> bool"

definition sleep :: "int \<Rightarrow> world \<Rightarrow> world" where
  "sleep secs w = w\<lparr>clock := clock w + secs\<rparr>"

definition execute :: "statement \<Rightarrow> world \<Rightarrow> world" where
  "execute s w = w\<lparr>trace := trace w @ [s]\<rparr>"

subsection \<open>The domain rate limiter\<close>

text \<open>
  Modelled from the spec: the declaration of \<open>domain_scrape_activity\<close> is not in the
  source; the spec gives it the columns \<open>domain\<close> (primary key), \<open>started\<close> and
  \<open>finished\<close>, null while the domain is idle, so the row that
  \<open>insert ... on conflict do nothing\<close> creates has both null.
\<close>

definition insert_domain :: "domain \<Rightarrow> (domain \<rightharpoonup> activity) \<Rightarrow> (domain \<rightharpoonup> activity)" where
  "insert_domain d tbl =
     (case tbl d of
        None \<Rightarrow> tbl(d \<mapsto> \<lparr>started = None, finished = None\<rparr>)
      | Some r \<Rightarrow> tbl)"

text \<open>The \<open>where\<close> clause of the \<open>ready\<close> query, on the row of the domain.\<close>

definition ready_row :: "timestamp \<Rightarrow> nat \<Rightarrow> activity \<Rightarrow> bool" where
  "ready_row t interval_seconds r =
     ((case started r of None \<Rightarrow> True | Some s \<Rightarrow> s < t - 3600)
      \<and> (case finished r of None \<Rightarrow> True | Some f \<Rightarrow> f < t - int interval_seconds))"

text \<open>
  The statement of \<open>begin_rate_limit_domain\<close>: insert if absent, select the ready row,
  update it, return the domains updated.
\<close>

definition begin_rate_limit_statement ::
  "domain \<Rightarrow> nat \<Rightarrow> timestamp \<Rightarrow> (domain \<rightharpoonup> activity) \<Rightarrow> domain list \<times> (domain \<rightharpoonup> activity)" where
  "begin_rate_limit_statement d interval_seconds t tbl =
     (let tbl1 = insert_domain d tbl;
          ready = (case tbl1 d of
                     None \<Rightarrow> []
                   | Some r \<Rightarrow> if ready_row t interval_seconds r then [d] else [])
      in if ready = [] then (ready, tbl1)
         else (ready, tbl1(d \<mapsto> \<lparr>started = Some t, finished = None\<rparr>)))"

text \<open>One turn of the loop up to \<open>fetchall\<close>: the rows returned and the world after.\<close>

definition begin_rate_limit_attempt :: "domain \<Rightarrow> nat \<Rightarrow> world \<Rightarrow> domain list \<times> world" where
  "begin_rate_limit_attempt d interval_seconds w =
     (case begin_rate_limit_statement d interval_seconds (clock w) (domain_scrape_activity w) of
        (ready, tbl) \<Rightarrow>
          (ready, execute (Begin_rate_limit d (ready \<noteq> [])) (w\<lparr>domain_scrape_activity := tbl\<rparr>)))"

text \<open>
  The polling loop. It has no bound, so it is a partial function: \<open>None\<close> is a loop that
  never ends. The sleep is Python 2's integer division \<open>interval_seconds/2\<close>.
\<close>

partial_function (option) begin_rate_limit_domain :: "domain \<Rightarrow> nat \<Rightarrow> world \<Rightarrow> world option" where
  "begin_rate_limit_domain d interval_seconds w =
     (case begin_rate_limit_attempt d interval_seconds w of
        (ready, w1) \<Rightarrow>
          if ready = [] then begin_rate_limit_domain d interval_seconds (sleep (int (interval_seconds div 2)) w1)
          else Some w1)"

definition end_rate_limit_statement :: "domain \<Rightarrow> timestamp \<Rightarrow> (domain \<rightharpoonup> activity) \<Rightarrow> (domain \<rightharpoonup> activity)" where
  "end_rate_limit_statement d t tbl =
     (case tbl d of
        None \<Rightarrow> tbl
      | Some r \<Rightarrow> tbl(d \<mapsto> \<lparr>started = None, finished = Some t\<rparr>))"

definition end_rate_limit_domain :: "domain \<Rightarrow> world \<Rightarrow> world" where
  "end_rate_limit_domain d w =
     execute (End_rate_limit d)
       (w\<lparr>domain_scrape_activity := end_rate_limit_statement d (clock w) (domain_scrape_activity w)\<rparr>)"

text \<open>
  \<open>scrape_page\<close>, on an element of the batch (\<open>None\<close> is Python's \<open>None\<close>, whose
  \<open>url\<close> attribute does not exist). The world after an exception is kept: the statements
  already sent stay sent. The worker's name is only logged and is left out.
\<close>

definition scrape_page :: "env \<Rightarrow> page_obj option \<Rightarrow> world \<Rightarrow> ((error + page_obj) \<times> world) option" where
  "scrape_page e page w =
     (case page of
        None \<Rightarrow> Some (Inl AttributeError, w)
      | Some p \<Rightarrow>
          (case begin_rate_limit_domain (netloc e (url (cols p))) 10 w of
             None \<Rightarrow> None
           | Some w1 \<Rightarrow>
               (case scrape e p of
                  Inl err \<Rightarrow> Some (Inl err, w1)
                | Inr p' \<Rightarrow> Some (Inr p', end_rate_limit_domain (netloc e (url (cols p))) w1))))"

subsection \<open>The queue: claiming a chunk\<close>

text \<open>
  SQL comparison with a nullable column: \<open>pmh_id = 'v'\<close> is null on a null tag and a
  \<open>where\<close> clause keeps a row only when its condition is true;
  \<open>is distinct from\<close> is never null.
\<close>

definition sql_eq :: "string option \<Rightarrow> string \<Rightarrow> bool option" where
  "sql_eq a b = (case a of None \<Rightarrow> None | Some x \<Rightarrow> Some (x = b))"

definition is_distinct_from :: "string option \<Rightarrow> string \<Rightarrow> bool" where
  "is_distinct_from a b = (case a of None \<Rightarrow> True | Some x \<Rightarrow> x \<noteq> b)"

definition pmh_value_filter :: "bool \<Rightarrow> string \<Rightarrow> string option \<Rightarrow> bool" where
  "pmh_value_filter scrape_publisher pe tag =
     (if scrape_publisher then sql_eq tag pe = Some True else is_distinct_from tag pe)"

text \<open>
  \<open>order by q.finished asc nulls first, q.started, q.rand\<close>: \<open>None\<close> is the least
  option value, which puts a null \<open>finished\<close> first; \<open>started\<close> has the default of an
  ascending sort, nulls last.
\<close>

definition order_key :: "queue_row \<Rightarrow> timestamp option \<times> (nat \<times> timestamp) \<times> int" where
  "order_key q =
     (finished q, (case started q of None \<Rightarrow> (1, 0) | Some s \<Rightarrow> (0, s)), rand q)"

text \<open>
  The \<open>update_chunk\<close> query. Its \<open>from\<close> and \<open>where\<close> clauses: the join of the
  queue with \<open>page_new\<close> on \<open>id\<close>, kept where the job is unclaimed and the tag passes
  the filter.
\<close>

definition unclaimed_jobs :: "env \<Rightarrow> bool \<Rightarrow> world \<Rightarrow> queue_row list" where
  "unclaimed_jobs e scrape_publisher w =
     [q. q \<leftarrow> page_green_scrape_queue w, p \<leftarrow> page_new w,
         queue_id q = page_id p,
         started q = None,
         pmh_value_filter scrape_publisher (oa_publisher_equivalent e) (pmh_id p)]"

text \<open>
  Its order and its limit. The chunk size is a natural number (the store rejects a
  negative limit).
\<close>

definition update_chunk :: "env \<Rightarrow> nat \<Rightarrow> bool \<Rightarrow> world \<Rightarrow> ident list" where
  "update_chunk e chunk_size scrape_publisher w =
     map queue_id (take chunk_size (sort_key order_key (unclaimed_jobs e scrape_publisher w)))"

definition claim_rows :: "timestamp \<Rightarrow> ident list \<Rightarrow> queue_row list \<Rightarrow> queue_row list" where
  "claim_rows t ids qs = map (\<lambda>q. if queue_id q \<in> set ids then q\<lparr>started := Some t\<rparr> else q) qs"

text \<open>
  \<open>fetch_queue_chunk\<close>: the update of the chunk's rows, which returns the identifiers
  of the rows it updated, then the query for the \<open>PageNew\<close> objects with these
  identifiers. That query has no \<open>order by\<close>: it yields the rows as the table holds them.
\<close>

definition fetch_queue_chunk :: "env \<Rightarrow> nat \<Rightarrow> bool \<Rightarrow> world \<Rightarrow> page_obj list \<times> world" where
  "fetch_queue_chunk e chunk_size scrape_publisher w =
     (let chunk = update_chunk e chunk_size scrape_publisher w;
          object_ids = [queue_id q. q \<leftarrow> page_green_scrape_queue w, queue_id q \<in> set chunk];
          w1 = execute (Fetch_chunk object_ids)
                 (w\<lparr>page_green_scrape_queue := claim_rows (clock w) chunk (page_green_scrape_queue w)\<rparr>);
          objects = [\<lparr>cols = p, sa_instance_state = Some Persistent\<rparr>.
                       p \<leftarrow> page_new w1, page_id p \<in> set object_ids]
      in (objects, w1))"

subsection \<open>The dispatcher and the result writer\<close>

text \<open>A \<open>for\<close> loop whose body may raise: it stops at the first exception.\<close>

fun for_each :: "('a \<Rightarrow> error + 'b) \<Rightarrow> 'a list \<Rightarrow> error + 'b list" where
  "for_each f [] = Inr []"
| "for_each f (x # xs) =
     (case f x of
        Inl err \<Rightarrow> Inl err
      | Inr y \<Rightarrow> (case for_each f xs of Inl err \<Rightarrow> Inl err | Inr ys \<Rightarrow> Inr (y # ys)))"

text \<open>
  SQLAlchemy's \<open>make_transient\<close> reads the \<open>_sa_instance_state\<close> attribute of its
  argument, which \<open>None\<close> does not have.
\<close>

definition make_transient :: "page_obj option \<Rightarrow> error + page_obj option" where
  "make_transient page =
     (case page of
        None \<Rightarrow> Inl AttributeError
      | Some p \<Rightarrow>
          (case sa_instance_state p of
             None \<Rightarrow> Inl AttributeError
           | Some st \<Rightarrow> Inr (Some (p\<lparr>sa_instance_state := Some Transient\<rparr>))))"

text \<open>
  \<open>pool.map(scrape_page, pages, chunksize=1)\<close>: every page of the batch is handed
  to the workers and goes through \<open>scrape_page\<close>, also when the scrape of another page
  raises. When no page raised, the results come back in the order of the batch, after
  the last one; otherwise an exception of a worker is raised again in the caller, here
  that of the first page of the batch that raised. The workers are modelled as taking
  the pages one after another in the order of the batch.
\<close>

fun pool_map :: "env \<Rightarrow> page_obj option list \<Rightarrow> world \<Rightarrow> ((error + page_obj list) \<times> world) option" where
  "pool_map e [] w = Some (Inr [], w)"
| "pool_map e (page # pages) w =
     (case scrape_page e page w of
        None \<Rightarrow> None
      | Some (r, w1) \<Rightarrow>
          (case pool_map e pages w1 of
             None \<Rightarrow> None
           | Some (rs, w2) \<Rightarrow>
               Some ((case r of
                        Inl err \<Rightarrow> Inl err
                      | Inr p \<Rightarrow> (case rs of Inl err \<Rightarrow> Inl err | Inr ps \<Rightarrow> Inr (p # ps))),
                     w2)))"

text \<open>\<open>row_dict.pop('_sa_instance_state')\<close> on the \<open>__dict__\<close> of a scraped page.\<close>

definition pop_sa_instance_state :: "page_obj \<Rightarrow> error + page_obj" where
  "pop_sa_instance_state row_dict =
     (case sa_instance_state row_dict of
        None \<Rightarrow> Inl KeyError
      | Some st \<Rightarrow> Inr (row_dict\<lparr>sa_instance_state := None\<rparr>))"

text \<open>
  \<open>db.session.bulk_update_mappings\<close> sends one update of \<open>page_new\<close> by primary key in
  the transaction of the session; the tables show it once the session commits.
\<close>

definition bulk_update_mappings :: "page_obj list \<Rightarrow> world \<Rightarrow> world" where
  "bulk_update_mappings row_dicts w =
     execute (Bulk_update row_dicts) (w\<lparr>session := session w @ [Bulk_update row_dicts]\<rparr>)"

definition close_session :: "world \<Rightarrow> world" where
  "close_session w = w\<lparr>session := []\<rparr>"

definition scrape_pages :: "env \<Rightarrow> page_obj option list \<Rightarrow> world \<Rightarrow> ((error + unit) \<times> world) option" where
  "scrape_pages e pages w =
     (case for_each make_transient pages of
        Inl err \<Rightarrow> Some (Inl err, w)
      | Inr transient_pages \<Rightarrow>
          (case pool_map e transient_pages (close_session w) of
             None \<Rightarrow> None
           | Some (Inl err, w1) \<Rightarrow> Some (Inl err, w1)
           | Some (Inr scraped_pages, w1) \<Rightarrow>
               (case for_each pop_sa_instance_state scraped_pages of
                  Inl err \<Rightarrow> Some (Inl err, w1)
                | Inr row_dicts \<Rightarrow> Some (Inr (), bulk_update_mappings row_dicts w1))))"

subsection \<open>The queue runner\<close>

text \<open>The statement that finishes a batch, on the queue table.\<close>

definition finish_batch :: "timestamp \<Rightarrow> ident list \<Rightarrow> queue_row list \<Rightarrow> queue_row list" where
  "finish_batch t ids qs =
     map (\<lambda>q. if queue_id q \<in> set ids then q\<lparr>started := None, finished := Some t\<rparr> else q) qs"

definition session_execute_finish_batch :: "ident list \<Rightarrow> world \<Rightarrow> world" where
  "session_execute_finish_batch object_ids w =
     execute (Finish_batch (clock w) object_ids)
       (w\<lparr>session := session w @ [Finish_batch (clock w) object_ids]\<rparr>)"

text \<open>The effect of a statement of the session on the tables, when the session commits.\<close>

definition update_mapping :: "page_obj \<Rightarrow> page_row list \<Rightarrow> page_row list" where
  "update_mapping row_dict tbl =
     map (\<lambda>r. if page_id r = page_id (cols row_dict) then cols row_dict else r) tbl"

fun apply_statement :: "world \<Rightarrow> statement \<Rightarrow> world" where
  "apply_statement w (Bulk_update row_dicts) =
     w\<lparr>page_new := foldl (\<lambda>tbl row_dict. update_mapping row_dict tbl) (page_new w) row_dicts\<rparr>"
| "apply_statement w (Finish_batch t ids) =
     w\<lparr>page_green_scrape_queue := finish_batch t ids (page_green_scrape_queue w)\<rparr>"
| "apply_statement w s = w"

text \<open>
  Modelled from the spec: \<open>safe_commit\<close> is not in the source. By the spec a commit that
  fails is reported and the run goes on, the batch staying in flight: the statements of
  the session are then dropped.
\<close>

definition safe_commit :: "env \<Rightarrow> nat \<Rightarrow> world \<Rightarrow> bool \<times> world" where
  "safe_commit e index w =
     (if commit_ok e index
      then (True, execute (Commit True) ((foldl apply_statement w (session w))\<lparr>session := []\<rparr>))
      else (False, execute (Commit False) (w\<lparr>session := []\<rparr>)))"

text \<open>
  \<open>limit\<close> is \<open>None\<close> when no limit is given, which the source turns into
  \<open>float("inf")\<close>.
\<close>

definition below_limit :: "nat \<Rightarrow> int option \<Rightarrow> bool" where
  "below_limit num_updated limit = (case limit of None \<Rightarrow> True | Some l \<Rightarrow> int num_updated < l)"

text \<open>
  The body of the \<open>while\<close> loop once a chunk is claimed: \<open>scrape_pages\<close>, the
  statement that finishes the batch, the commit.
\<close>

definition process_batch :: "env \<Rightarrow> nat \<Rightarrow> page_obj list \<Rightarrow> world \<Rightarrow> ((error + unit) \<times> world) option" where
  "process_batch e index objects w =
     (case scrape_pages e (map Some objects) w of
        None \<Rightarrow> None
      | Some (Inl err, w1) \<Rightarrow> Some (Inl err, w1)
      | Some (Inr u, w1) \<Rightarrow>
          Some (Inr (), snd (safe_commit e index
            (session_execute_finish_batch (map (\<lambda>obj. page_id (cols obj)) objects) w1))))"

text \<open>
  The \<open>while\<close> loop of the continuous mode, with its variables \<open>index\<close> and
  \<open>num_updated\<close>. The source returns nothing; the model returns \<open>num_updated\<close> as it is
  when the loop ends.
\<close>

partial_function (option) worker_loop ::
  "env \<Rightarrow> nat \<Rightarrow> bool \<Rightarrow> int option \<Rightarrow> nat \<Rightarrow> nat \<Rightarrow> world \<Rightarrow> ((error + nat) \<times> world) option" where
  "worker_loop e chunk_size scrape_publisher limit index num_updated w =
     (if below_limit num_updated limit then
        (case fetch_queue_chunk e chunk_size scrape_publisher w of
           (objects, w1) \<Rightarrow>
             if objects = [] then
               worker_loop e chunk_size scrape_publisher limit index num_updated (sleep 5 w1)
             else
               (case process_batch e index objects w1 of
                  None \<Rightarrow> None
                | Some (Inl err, w2) \<Rightarrow> Some (Inl err, w2)
                | Some (Inr u, w2) \<Rightarrow>
                    worker_loop e chunk_size scrape_publisher limit (index + 1)
                      (num_updated + length objects) w2))
      else Some (Inr num_updated, w))"

text \<open>\<open>run_class.query.filter(run_class.id == single_id).first()\<close>.\<close>

definition query_first :: "ident \<Rightarrow> world \<Rightarrow> page_obj option" where
  "query_first single_id w =
     map_option (\<lambda>p. \<lparr>cols = p, sa_instance_state = Some Persistent\<rparr>)
       (find (\<lambda>p. page_id p = single_id) (page_new w))"

text \<open>
  \<open>worker_run\<close>. \<open>if single_id\<close> holds for a string that is given and not empty.
\<close>

definition worker_run ::
  "env \<Rightarrow> ident option \<Rightarrow> nat \<Rightarrow> int option \<Rightarrow> bool \<Rightarrow> world \<Rightarrow> ((error + unit) \<times> world) option" where
  "worker_run e single_id chunk_size limit scrape_publisher w =
     (case single_id of
        Some (c # cs) \<Rightarrow>
          (case scrape_pages e [query_first (c # cs) w] w of
             None \<Rightarrow> None
           | Some (Inl err, w1) \<Rightarrow> Some (Inl err, w1)
           | Some (Inr u, w1) \<Rightarrow> Some (Inr (), snd (safe_commit e 0 w1)))
      | _ \<Rightarrow>
          (case worker_loop e chunk_size scrape_publisher limit 0 0 w of
             None \<Rightarrow> None
           | Some (Inl err, w1) \<Rightarrow> Some (Inl err, w1)
           | Some (Inr n, w1) \<Rightarrow> Some (Inr (), w1)))"

subsection \<open>An example store\<close>

text \<open>
  Three pages on three domains, all unclaimed; the third is publisher-equivalent and
  its scrape raises. The clock reads 100.
\<close>

definition example_netloc :: "string \<Rightarrow> domain" where
  "example_netloc u = takeWhile (\<lambda>c. c \<noteq> CHR ''/'') (drop 7 u)"

definition example_scrape :: "page_obj \<Rightarrow> error + page_obj" where
  "example_scrape p =
     (if url (cols p) = ''http://c.org/3'' then Inl ScrapeError
      else Inr (p\<lparr>cols := (cols p)\<lparr>scrape_attrs := [(''scrape_version'', ''submittedVersion'')]\<rparr>\<rparr>))"

definition example_env :: env where
  "example_env =
     \<lparr>scrape = example_scrape, netloc = example_netloc,
      oa_publisher_equivalent = ''publisher-equivalent'', commit_ok = (\<lambda>index. True)\<rparr>"

definition example_pages :: "page_row list" where
  "example_pages =
     [\<lparr>page_id = ''p1'', url = ''http://a.org/1'', pmh_id = None, scrape_attrs = []\<rparr>,
      \<lparr>page_id = ''p2'', url = ''http://b.org/2'', pmh_id = Some ''oai:b.org:2'', scrape_attrs = []\<rparr>,
      \<lparr>page_id = ''p3'', url = ''http://c.org/3'', pmh_id = Some ''publisher-equivalent'', scrape_attrs = []\<rparr>]"

definition example_queue :: "queue_row list" where
  "example_queue =
     [\<lparr>started = None, finished = Some 50, queue_id = ''p1'', rand = 1\<rparr>,
      \<lparr>started = None, finished = None, queue_id = ''p2'', rand = 2\<rparr>,
      \<lparr>started = None, finished = None, queue_id = ''p3'', rand = 3\<rparr>]"

definition example_world :: world where
  "example_world =
     \<lparr>clock = 100, domain_scrape_activity = Map.empty, page_green_scrape_queue = example_queue,
      page_new = example_pages, session = [], trace = []\<rparr>"

definition example_obj :: "nat \<Rightarrow> page_obj" where
  "example_obj n = \<lparr>cols = example_pages ! n, sa_instance_state = Some Persistent\<rparr>"

text \<open>The sort keys of the jobs of a list of objects, read from the queue table.\<close>

definition job_keys :: "queue_row list \<Rightarrow> page_obj list \<Rightarrow> (timestamp option \<times> (nat \<times> timestamp) \<times> int) list" where
  "job_keys qs objects = [order_key q. obj \<leftarrow> objects, q \<leftarrow> qs, queue_id q = page_id (cols obj)]"

text \<open>The statements of the rate limiter, as against those of the queue and the session.\<close>

fun rate_limit_statement :: "statement \<Rightarrow> bool" where
  "rate_limit_statement (Begin_rate_limit d granted) = True"
| "rate_limit_statement (End_rate_limit d) = True"
| "rate_limit_statement s = False"


section \<open>Properties\<close>

subsection \<open>Facts about the rate limiter\<close>

lemmas example_defs = example_env_def example_world_def example_pages_def example_queue_def
  example_obj_def example_scrape_def example_netloc_def

lemma begin_rate_limit_statement_cases:
  "begin_rate_limit_statement d i t tbl =
     (case tbl d of
        None \<Rightarrow> ([d], tbl(d \<mapsto> \<lparr>started = Some t, finished = None\<rparr>))
      | Some r \<Rightarrow>
          if ready_row t i r then ([d], tbl(d \<mapsto> \<lparr>started = Some t, finished = None\<rparr>))
          else ([], tbl))"
  by (auto simp: begin_rate_limit_statement_def insert_domain_def ready_row_def Let_def
           split: option.splits)

lemma attempt_not_ready:
  assumes "begin_rate_limit_attempt d i w = ([], w1)"
  shows "w1 = execute (Begin_rate_limit d False) w"
  using assms
  by (auto simp: begin_rate_limit_attempt_def begin_rate_limit_statement_cases
           split: option.splits if_splits)

lemma attempt_ready:
  assumes "begin_rate_limit_attempt d i w = (ready, w1)" and "ready \<noteq> []"
  shows "w1 = execute (Begin_rate_limit d True)
                (w\<lparr>domain_scrape_activity :=
                     (domain_scrape_activity w)(d \<mapsto> \<lparr>started = Some (clock w), finished = None\<rparr>)\<rparr>)"
  using assms
  by (auto simp: begin_rate_limit_attempt_def begin_rate_limit_statement_cases
           split: option.splits if_splits)

text \<open>
  Claim C3. The statement of \<open>begin_rate_limit_domain\<close> grants the domain (it returns
  the domain and sets \<open>started\<close> to now, \<open>finished\<close> to null) exactly when the domain has
  no row yet, or its \<open>started\<close> is null or more than one hour old and its \<open>finished\<close> is
  null or older than the interval. When it grants nothing the table is as before. In
  particular a domain whose holder never released it (\<open>finished\<close> null) is granted once
  \<open>started\<close> is more than one hour old, and a domain whose \<open>finished\<close> is within the
  interval is not granted.
\<close>

theorem begin_rate_limit_grants_iff_eligible:
  "((fst (begin_rate_limit_statement d i t tbl) \<noteq> []) =
      (tbl d = None \<or>
       (\<exists>r. tbl d = Some r
          \<and> (started r = None \<or> (\<exists>s. started r = Some s \<and> s < t - 3600))
          \<and> (finished r = None \<or> (\<exists>f. finished r = Some f \<and> f < t - int i)))))
   \<and> (fst (begin_rate_limit_statement d i t tbl) \<noteq> [] \<longrightarrow>
        begin_rate_limit_statement d i t tbl = ([d], tbl(d \<mapsto> \<lparr>started = Some t, finished = None\<rparr>)))
   \<and> (fst (begin_rate_limit_statement d i t tbl) = [] \<longrightarrow>
        snd (begin_rate_limit_statement d i t tbl) = tbl)
   \<and> (\<forall>s. tbl d = Some \<lparr>started = Some s, finished = None\<rparr> \<and> s < t - 3600 \<longrightarrow>
        fst (begin_rate_limit_statement d i t tbl) = [d])
   \<and> (\<forall>r f. tbl d = Some r \<and> finished r = Some f \<and> t - int i \<le> f \<longrightarrow>
        fst (begin_rate_limit_statement d i t tbl) = [])"
proof -
  have iff: "(fst (begin_rate_limit_statement d i t tbl) \<noteq> []) =
      (tbl d = None \<or>
       (\<exists>r. tbl d = Some r
          \<and> (started r = None \<or> (\<exists>s. started r = Some s \<and> s < t - 3600))
          \<and> (finished r = None \<or> (\<exists>f. finished r = Some f \<and> f < t - int i))))"
    by (cases "tbl d")
       (auto simp: begin_rate_limit_statement_cases ready_row_def split: option.splits)
  have granted: "fst (begin_rate_limit_statement d i t tbl) \<noteq> [] \<longrightarrow>
        begin_rate_limit_statement d i t tbl = ([d], tbl(d \<mapsto> \<lparr>started = Some t, finished = None\<rparr>))"
    by (cases "tbl d") (auto simp: begin_rate_limit_statement_cases)
  have refused: "fst (begin_rate_limit_statement d i t tbl) = [] \<longrightarrow>
        snd (begin_rate_limit_statement d i t tbl) = tbl"
    by (cases "tbl d") (auto simp: begin_rate_limit_statement_cases)
  have stale: "\<forall>s. tbl d = Some \<lparr>started = Some s, finished = None\<rparr> \<and> s < t - 3600 \<longrightarrow>
        fst (begin_rate_limit_statement d i t tbl) = [d]"
    by (auto simp: begin_rate_limit_statement_cases ready_row_def)
  have cooling: "\<forall>r f. tbl d = Some r \<and> finished r = Some f \<and> t - int i \<le> f \<longrightarrow>
        fst (begin_rate_limit_statement d i t tbl) = []"
    by (auto simp: begin_rate_limit_statement_cases ready_row_def)
  from iff granted refused stale cooling show ?thesis by blast
qed

theorem begin_rate_limit_grants_iff_eligible_witness:
  "[''a.org'' \<mapsto> \<lparr>started = Some 0, finished = None\<rparr>] ''a.org'' = Some \<lparr>started = Some 0, finished = None\<rparr>
   \<and> (0::int) < 3601 - 3600
   \<and> fst (begin_rate_limit_statement ''a.org'' 10 3601 [''a.org'' \<mapsto> \<lparr>started = Some 0, finished = None\<rparr>]) = [''a.org'']
   \<and> snd (begin_rate_limit_statement ''a.org'' 10 3601 [''a.org'' \<mapsto> \<lparr>started = Some 0, finished = None\<rparr>]) ''a.org''
       = Some \<lparr>started = Some 3601, finished = None\<rparr>
   \<and> [''a.org'' \<mapsto> \<lparr>started = None, finished = Some 95\<rparr>] ''a.org'' = Some \<lparr>started = None, finished = Some 95\<rparr>
   \<and> (100::int) - int 10 \<le> 95
   \<and> fst (begin_rate_limit_statement ''a.org'' 10 100 [''a.org'' \<mapsto> \<lparr>started = None, finished = Some 95\<rparr>]) = []
   \<and> snd (begin_rate_limit_statement ''a.org'' 10 100 [''a.org'' \<mapsto> \<lparr>started = None, finished = Some 95\<rparr>])
       = [''a.org'' \<mapsto> \<lparr>started = None, finished = Some 95\<rparr>]"
  using begin_rate_limit_grants_iff_eligible
          [of "''a.org''" 10 3601 "[''a.org'' \<mapsto> \<lparr>started = Some 0, finished = None\<rparr>]"]
        begin_rate_limit_grants_iff_eligible
          [of "''a.org''" 10 100 "[''a.org'' \<mapsto> \<lparr>started = None, finished = Some 95\<rparr>]"]
  by auto


lemma begin_rate_limit_domain_result:
  assumes "begin_rate_limit_domain d i w = Some w'"
  shows "\<exists>k. clock w' = clock w + int k * int (i div 2)
           \<and> trace w' = trace w @ replicate k (Begin_rate_limit d False) @ [Begin_rate_limit d True]
           \<and> domain_scrape_activity w' d = Some \<lparr>started = Some (clock w'), finished = None\<rparr>
           \<and> (\<forall>d'. d' \<noteq> d \<longrightarrow> domain_scrape_activity w' d' = domain_scrape_activity w d')
           \<and> page_new w' = page_new w
           \<and> page_green_scrape_queue w' = page_green_scrape_queue w
           \<and> session w' = session w"
  using assms
proof (induction rule: begin_rate_limit_domain.raw_induct[rotated 1, consumes 1])
  case (1 loop d i w w')
  obtain ready w1 where att: "begin_rate_limit_attempt d i w = (ready, w1)"
    by (cases "begin_rate_limit_attempt d i w")
  show ?case
  proof (cases "ready = []")
    case True
    let ?w2 = "sleep (int (i div 2)) w1"
    from att True 1(2) have rec: "loop d i ?w2 = Some w'" by simp
    from att True have w1: "w1 = execute (Begin_rate_limit d False) w"
      by (simp add: attempt_not_ready)
    from 1(1)[OF rec] obtain k where k:
      "clock w' = clock ?w2 + int k * int (i div 2)"
      "trace w' = trace ?w2 @ replicate k (Begin_rate_limit d False) @ [Begin_rate_limit d True]"
      "domain_scrape_activity w' d = Some \<lparr>started = Some (clock w'), finished = None\<rparr>"
      "\<forall>d'. d' \<noteq> d \<longrightarrow> domain_scrape_activity w' d' = domain_scrape_activity ?w2 d'"
      "page_new w' = page_new ?w2"
      "page_green_scrape_queue w' = page_green_scrape_queue ?w2"
      "session w' = session ?w2"
      by blast
    have "clock w' = clock w + int (Suc k) * int (i div 2)"
      using k(1) by (simp add: w1 sleep_def execute_def algebra_simps)
    moreover have "trace w' = trace w @ replicate (Suc k) (Begin_rate_limit d False) @ [Begin_rate_limit d True]"
      using k(2) by (simp add: w1 sleep_def execute_def)
    moreover have "\<forall>d'. d' \<noteq> d \<longrightarrow> domain_scrape_activity w' d' = domain_scrape_activity w d'"
      using k(4) by (simp add: w1 sleep_def execute_def)
    moreover have "page_new w' = page_new w" "page_green_scrape_queue w' = page_green_scrape_queue w"
      "session w' = session w"
      using k(5,6,7) by (simp_all add: w1 sleep_def execute_def)
    ultimately show ?thesis using k(3) by blast
  next
    case False
    with att 1(2) have "w' = w1" by simp
    with attempt_ready[OF att False] have
      "w' = execute (Begin_rate_limit d True)
              (w\<lparr>domain_scrape_activity :=
                   (domain_scrape_activity w)(d \<mapsto> \<lparr>started = Some (clock w), finished = None\<rparr>)\<rparr>)"
      by simp
    then have "clock w' = clock w + int 0 * int (i div 2)
           \<and> trace w' = trace w @ replicate 0 (Begin_rate_limit d False) @ [Begin_rate_limit d True]
           \<and> domain_scrape_activity w' d = Some \<lparr>started = Some (clock w'), finished = None\<rparr>
           \<and> (\<forall>d'. d' \<noteq> d \<longrightarrow> domain_scrape_activity w' d' = domain_scrape_activity w d')
           \<and> page_new w' = page_new w
           \<and> page_green_scrape_queue w' = page_green_scrape_queue w
           \<and> session w' = session w"
      by (simp add: execute_def)
    then show ?thesis by blast
  qed
qed

lemma count_list_replicate_other: "x \<noteq> y \<Longrightarrow> count_list (replicate k y) x = 0"
  by (induction k) simp_all

lemmas limiter_eval = begin_rate_limit_domain.simps begin_rate_limit_attempt_def
  begin_rate_limit_statement_def insert_domain_def ready_row_def Let_def execute_def sleep_def
  end_rate_limit_domain_def end_rate_limit_statement_def scrape_page_def

text \<open>
  Claim C6. \<open>begin_rate_limit_domain\<close> returns only after a granted attempt: when it
  returns, the row of the domain has \<open>started\<close> at the time of return and \<open>finished\<close>
  null, and the statements it sent are some number \<open>k\<close> of refused attempts, each
  followed by a sleep of \<open>interval_seconds div 2\<close>, then one granted attempt. An attempt
  that grants nothing leaves the world as it was and the loop goes on after the sleep.
  An attempt on a domain that is active and not stale, or within its cooldown, grants
  nothing.
\<close>

theorem begin_rate_limit_domain_returns_granted:
  "(begin_rate_limit_domain d i w = Some w' \<longrightarrow>
      domain_scrape_activity w' d = Some \<lparr>started = Some (clock w'), finished = None\<rparr>
      \<and> (\<exists>k. clock w' = clock w + int k * int (i div 2)
            \<and> trace w' = trace w @ replicate k (Begin_rate_limit d False) @ [Begin_rate_limit d True]))
   \<and> (fst (begin_rate_limit_attempt d i w) = [] \<longrightarrow>
        snd (begin_rate_limit_attempt d i w) = execute (Begin_rate_limit d False) w
        \<and> begin_rate_limit_domain d i w
            = begin_rate_limit_domain d i (sleep (int (i div 2)) (execute (Begin_rate_limit d False) w)))
   \<and> (\<forall>r s. domain_scrape_activity w d = Some r \<and> started r = Some s \<and> clock w - 3600 \<le> s \<longrightarrow>
        fst (begin_rate_limit_attempt d i w) = [])
   \<and> (\<forall>r f. domain_scrape_activity w d = Some r \<and> finished r = Some f \<and> clock w - int i \<le> f \<longrightarrow>
        fst (begin_rate_limit_attempt d i w) = [])"
proof -
  have returned: "begin_rate_limit_domain d i w = Some w' \<longrightarrow>
      domain_scrape_activity w' d = Some \<lparr>started = Some (clock w'), finished = None\<rparr>
      \<and> (\<exists>k. clock w' = clock w + int k * int (i div 2)
            \<and> trace w' = trace w @ replicate k (Begin_rate_limit d False) @ [Begin_rate_limit d True])"
    using begin_rate_limit_domain_result[of d i w w'] by blast
  have retry: "fst (begin_rate_limit_attempt d i w) = [] \<longrightarrow>
        snd (begin_rate_limit_attempt d i w) = execute (Begin_rate_limit d False) w
        \<and> begin_rate_limit_domain d i w
            = begin_rate_limit_domain d i (sleep (int (i div 2)) (execute (Begin_rate_limit d False) w))"
  proof
    assume none: "fst (begin_rate_limit_attempt d i w) = []"
    then obtain w1 where att: "begin_rate_limit_attempt d i w = ([], w1)"
      by (cases "begin_rate_limit_attempt d i w") simp
    from attempt_not_ready[OF att] have w1: "w1 = execute (Begin_rate_limit d False) w" .
    have "begin_rate_limit_domain d i w = begin_rate_limit_domain d i (sleep (int (i div 2)) w1)"
      by (subst begin_rate_limit_domain.simps) (simp add: att)
    with w1 att show "snd (begin_rate_limit_attempt d i w) = execute (Begin_rate_limit d False) w
        \<and> begin_rate_limit_domain d i w
            = begin_rate_limit_domain d i (sleep (int (i div 2)) (execute (Begin_rate_limit d False) w))"
      by simp
  qed
  have active: "\<forall>r s. domain_scrape_activity w d = Some r \<and> started r = Some s \<and> clock w - 3600 \<le> s \<longrightarrow>
        fst (begin_rate_limit_attempt d i w) = []"
    by (auto simp: begin_rate_limit_attempt_def begin_rate_limit_statement_cases ready_row_def)
  have cooling: "\<forall>r f. domain_scrape_activity w d = Some r \<and> finished r = Some f \<and> clock w - int i \<le> f \<longrightarrow>
        fst (begin_rate_limit_attempt d i w) = []"
    by (auto simp: begin_rate_limit_attempt_def begin_rate_limit_statement_cases ready_row_def)
  from returned retry active cooling show ?thesis by blast
qed

theorem begin_rate_limit_domain_returns_granted_witness:
  "domain_scrape_activity (example_world\<lparr>domain_scrape_activity := [''a.org'' \<mapsto> \<lparr>started = None, finished = Some 100\<rparr>]\<rparr>) ''a.org''
     = Some \<lparr>started = None, finished = Some 100\<rparr>
   \<and> clock example_world - int 10 \<le> 100
   \<and> fst (begin_rate_limit_attempt ''a.org'' 10
        (example_world\<lparr>domain_scrape_activity := [''a.org'' \<mapsto> \<lparr>started = None, finished = Some 100\<rparr>]\<rparr>)) = []
   \<and> map_option clock (begin_rate_limit_domain ''a.org'' 10
        (example_world\<lparr>domain_scrape_activity := [''a.org'' \<mapsto> \<lparr>started = None, finished = Some 100\<rparr>]\<rparr>)) = Some 115
   \<and> map_option (\<lambda>w'. domain_scrape_activity w' ''a.org'') (begin_rate_limit_domain ''a.org'' 10
        (example_world\<lparr>domain_scrape_activity := [''a.org'' \<mapsto> \<lparr>started = None, finished = Some 100\<rparr>]\<rparr>))
       = Some (Some \<lparr>started = Some 115, finished = None\<rparr>)"
proof -
  let ?w = "example_world\<lparr>domain_scrape_activity := [''a.org'' \<mapsto> \<lparr>started = None, finished = Some 100\<rparr>]\<rparr>"
  have c: "map_option clock (begin_rate_limit_domain ''a.org'' 10 ?w) = Some 115"
    by (simp add: limiter_eval example_defs)
  then obtain w' where w': "begin_rate_limit_domain ''a.org'' 10 ?w = Some w'"
    by blast
  have row: "domain_scrape_activity ?w ''a.org'' = Some \<lparr>started = None, finished = Some 100\<rparr>"
    by simp
  have cool: "clock ?w - int 10 \<le> 100"
    by (simp add: example_defs)
  from begin_rate_limit_domain_returns_granted[of "''a.org''" 10 ?w w'] w' row cool c
  show ?thesis
    by (auto simp: example_defs)
qed

subsection \<open>The critical section of a job\<close>

lemma count_list_polls:
  "count_list (xs @ replicate k (Begin_rate_limit d False) @ [Begin_rate_limit d True]) (Begin_rate_limit d True)
     = count_list xs (Begin_rate_limit d True) + 1"
  "count_list (xs @ replicate k (Begin_rate_limit d False) @ [Begin_rate_limit d True]) (End_rate_limit d')
     = count_list xs (End_rate_limit d')"
  by (simp_all add: count_list_replicate_other)

lemma idle_row_grant:
  "(fst (begin_rate_limit_statement d i t (tbl(d \<mapsto> \<lparr>started = None, finished = Some c\<rparr>))) \<noteq> [])
     = (c < t - int i)"
  by (simp add: begin_rate_limit_statement_cases ready_row_def)

lemma held_row_grant:
  "(fst (begin_rate_limit_statement d i t (tbl(d \<mapsto> \<lparr>started = Some c, finished = None\<rparr>))) \<noteq> [])
     = (c < t - 3600)"
  by (simp add: begin_rate_limit_statement_cases ready_row_def)

text \<open>
  Claim C1, as the code has it. \<open>scrape_page\<close> on a page sends exactly one granted
  acquire for the page's domain. When the scrape returns, it sends exactly one release
  after it: the row then has \<open>started\<close> null and \<open>finished\<close> at the time of release, and
  a later acquire is granted as soon as \<open>finished\<close> is older than the interval. When the
  scrape raises, the exception leaves \<open>scrape_page\<close> before the release (the source has
  no cleanup block around the scrape): no release is sent, the row keeps \<open>started\<close> at
  the time of the acquire and \<open>finished\<close> null, and a later acquire is granted only
  when \<open>started\<close> is more than one hour old.
\<close>

theorem scrape_page_releases_on_return_only:
  "scrape_page e (Some p) w = Some (r, w') \<longrightarrow>
     count_list (trace w') (Begin_rate_limit (netloc e (url (cols p))) True)
       = count_list (trace w) (Begin_rate_limit (netloc e (url (cols p))) True) + 1
     \<and> (\<forall>p'. scrape e p = Inr p' \<longrightarrow>
           r = Inr p'
           \<and> count_list (trace w') (End_rate_limit (netloc e (url (cols p))))
               = count_list (trace w) (End_rate_limit (netloc e (url (cols p)))) + 1
           \<and> domain_scrape_activity w' (netloc e (url (cols p)))
               = Some \<lparr>started = None, finished = Some (clock w')\<rparr>
           \<and> (\<forall>i t. (fst (begin_rate_limit_statement (netloc e (url (cols p))) i t (domain_scrape_activity w')) \<noteq> [])
                  = (clock w' < t - int i)))
     \<and> (\<forall>err. scrape e p = Inl err \<longrightarrow>
           r = Inl err
           \<and> count_list (trace w') (End_rate_limit (netloc e (url (cols p))))
               = count_list (trace w) (End_rate_limit (netloc e (url (cols p))))
           \<and> domain_scrape_activity w' (netloc e (url (cols p)))
               = Some \<lparr>started = Some (clock w'), finished = None\<rparr>
           \<and> (\<forall>i t. (fst (begin_rate_limit_statement (netloc e (url (cols p))) i t (domain_scrape_activity w')) \<noteq> [])
                  = (clock w' < t - 3600)))"
proof
  let ?d = "netloc e (url (cols p))"
  assume run: "scrape_page e (Some p) w = Some (r, w')"
  then obtain w1 where acq: "begin_rate_limit_domain ?d 10 w = Some w1"
    by (auto simp: scrape_page_def split: option.splits)
  from begin_rate_limit_domain_result[OF acq] obtain k where k:
    "trace w1 = trace w @ replicate k (Begin_rate_limit ?d False) @ [Begin_rate_limit ?d True]"
    "domain_scrape_activity w1 ?d = Some \<lparr>started = Some (clock w1), finished = None\<rparr>"
    by blast
  have tbl1: "domain_scrape_activity w1 = (domain_scrape_activity w1)(?d \<mapsto> \<lparr>started = Some (clock w1), finished = None\<rparr>)"
    using k(2) by (simp add: fun_upd_idem)
  have begins: "count_list (trace w1) (Begin_rate_limit ?d True) = count_list (trace w) (Begin_rate_limit ?d True) + 1"
    and ends: "count_list (trace w1) (End_rate_limit ?d) = count_list (trace w) (End_rate_limit ?d)"
    by (simp_all only: k(1) count_list_polls)
  have ok: "\<forall>p'. scrape e p = Inr p' \<longrightarrow>
           r = Inr p'
           \<and> count_list (trace w') (Begin_rate_limit ?d True) = count_list (trace w) (Begin_rate_limit ?d True) + 1
           \<and> count_list (trace w') (End_rate_limit ?d) = count_list (trace w) (End_rate_limit ?d) + 1
           \<and> domain_scrape_activity w' ?d = Some \<lparr>started = None, finished = Some (clock w')\<rparr>
           \<and> (\<forall>i t. (fst (begin_rate_limit_statement ?d i t (domain_scrape_activity w')) \<noteq> [])
                  = (clock w' < t - int i))"
  proof (intro allI impI)
    fix p' assume s: "scrape e p = Inr p'"
    with run acq have r: "r = Inr p'" and w': "w' = end_rate_limit_domain ?d w1"
      by (simp_all add: scrape_page_def)
    have tbl': "domain_scrape_activity w' = (domain_scrape_activity w1)(?d \<mapsto> \<lparr>started = None, finished = Some (clock w')\<rparr>)"
      using k(2) by (simp add: w' end_rate_limit_domain_def end_rate_limit_statement_def execute_def)
    have tr: "trace w' = trace w1 @ [End_rate_limit ?d]"
      by (simp add: w' end_rate_limit_domain_def execute_def)
    show "r = Inr p'
           \<and> count_list (trace w') (Begin_rate_limit ?d True) = count_list (trace w) (Begin_rate_limit ?d True) + 1
           \<and> count_list (trace w') (End_rate_limit ?d) = count_list (trace w) (End_rate_limit ?d) + 1
           \<and> domain_scrape_activity w' ?d = Some \<lparr>started = None, finished = Some (clock w')\<rparr>
           \<and> (\<forall>i t. (fst (begin_rate_limit_statement ?d i t (domain_scrape_activity w')) \<noteq> [])
                  = (clock w' < t - int i))"
      using r begins ends by (simp add: tr) (simp add: tbl' idle_row_grant)
  qed
  have failed: "\<forall>err. scrape e p = Inl err \<longrightarrow>
           r = Inl err
           \<and> count_list (trace w') (Begin_rate_limit ?d True) = count_list (trace w) (Begin_rate_limit ?d True) + 1
           \<and> count_list (trace w') (End_rate_limit ?d) = count_list (trace w) (End_rate_limit ?d)
           \<and> domain_scrape_activity w' ?d = Some \<lparr>started = Some (clock w'), finished = None\<rparr>
           \<and> (\<forall>i t. (fst (begin_rate_limit_statement ?d i t (domain_scrape_activity w')) \<noteq> [])
                  = (clock w' < t - 3600))"
  proof (intro allI impI)
    fix err assume s: "scrape e p = Inl err"
    with run acq have r: "r = Inl err" and w': "w' = w1"
      by (simp_all add: scrape_page_def)
    have grant: "\<forall>i t. (fst (begin_rate_limit_statement ?d i t (domain_scrape_activity w1)) \<noteq> [])
                  = (clock w1 < t - 3600)"
      by (subst tbl1) (simp only: held_row_grant, simp)
    show "r = Inl err
           \<and> count_list (trace w') (Begin_rate_limit ?d True) = count_list (trace w) (Begin_rate_limit ?d True) + 1
           \<and> count_list (trace w') (End_rate_limit ?d) = count_list (trace w) (End_rate_limit ?d)
           \<and> domain_scrape_activity w' ?d = Some \<lparr>started = Some (clock w'), finished = None\<rparr>
           \<and> (\<forall>i t. (fst (begin_rate_limit_statement ?d i t (domain_scrape_activity w')) \<noteq> [])
                  = (clock w' < t - 3600))"
      using r begins ends k(2) grant by (simp add: w')
  qed
  show "count_list (trace w') (Begin_rate_limit ?d True)
       = count_list (trace w) (Begin_rate_limit ?d True) + 1
     \<and> (\<forall>p'. scrape e p = Inr p' \<longrightarrow>
           r = Inr p'
           \<and> count_list (trace w') (End_rate_limit ?d)
               = count_list (trace w) (End_rate_limit ?d) + 1
           \<and> domain_scrape_activity w' ?d
               = Some \<lparr>started = None, finished = Some (clock w')\<rparr>
           \<and> (\<forall>i t. (fst (begin_rate_limit_statement ?d i t (domain_scrape_activity w')) \<noteq> [])
                  = (clock w' < t - int i)))
     \<and> (\<forall>err. scrape e p = Inl err \<longrightarrow>
           r = Inl err
           \<and> count_list (trace w') (End_rate_limit ?d)
               = count_list (trace w) (End_rate_limit ?d)
           \<and> domain_scrape_activity w' ?d
               = Some \<lparr>started = Some (clock w'), finished = None\<rparr>
           \<and> (\<forall>i t. (fst (begin_rate_limit_statement ?d i t (domain_scrape_activity w')) \<noteq> [])
                  = (clock w' < t - 3600)))"
    using ok failed by (cases "scrape e p") auto
qed

text \<open>
  Claim C1 as stated fails on the example store: the scrape of the third page raises,
  the only statement sent is the granted acquire, the row of \<open>c.org\<close> stays held, and
  an acquire 11 seconds later (the interval is 10) is refused, as it still is after
  3600 seconds; it is granted after 3601.
\<close>

theorem scrape_page_failure_keeps_domain_locked:
  "map_option fst (scrape_page example_env (Some (example_obj 2)) example_world) = Some (Inl ScrapeError)
   \<and> map_option (\<lambda>r. trace (snd r)) (scrape_page example_env (Some (example_obj 2)) example_world)
       = Some [Begin_rate_limit ''c.org'' True]
   \<and> map_option (\<lambda>r. domain_scrape_activity (snd r) ''c.org'')
       (scrape_page example_env (Some (example_obj 2)) example_world)
       = Some (Some \<lparr>started = Some 100, finished = None\<rparr>)
   \<and> map_option (\<lambda>r. fst (begin_rate_limit_attempt ''c.org'' 10 (sleep 11 (snd r))))
       (scrape_page example_env (Some (example_obj 2)) example_world) = Some []
   \<and> map_option (\<lambda>r. fst (begin_rate_limit_attempt ''c.org'' 10 (sleep 3600 (snd r))))
       (scrape_page example_env (Some (example_obj 2)) example_world) = Some []
   \<and> map_option (\<lambda>r. fst (begin_rate_limit_attempt ''c.org'' 10 (sleep 3601 (snd r))))
       (scrape_page example_env (Some (example_obj 2)) example_world) = Some [''c.org'']"
  by (simp add: limiter_eval example_defs)


text \<open>The first page of the example store returns from its scrape, the third raises.\<close>

theorem scrape_page_releases_on_return_only_witness:
  "scrape example_env (example_obj 0)
     = Inr ((example_obj 0)\<lparr>cols := (cols (example_obj 0))\<lparr>scrape_attrs := [(''scrape_version'', ''submittedVersion'')]\<rparr>\<rparr>)
   \<and> map_option (\<lambda>r. count_list (trace (snd r)) (Begin_rate_limit ''a.org'' True))
       (scrape_page example_env (Some (example_obj 0)) example_world) = Some 1
   \<and> map_option (\<lambda>r. count_list (trace (snd r)) (End_rate_limit ''a.org''))
       (scrape_page example_env (Some (example_obj 0)) example_world) = Some 1
   \<and> map_option (\<lambda>r. domain_scrape_activity (snd r) ''a.org'')
       (scrape_page example_env (Some (example_obj 0)) example_world)
       = Some (Some \<lparr>started = None, finished = Some 100\<rparr>)
   \<and> scrape example_env (example_obj 2) = Inl ScrapeError
   \<and> map_option (\<lambda>r. count_list (trace (snd r)) (End_rate_limit ''c.org''))
       (scrape_page example_env (Some (example_obj 2)) example_world) = Some 0"
proof -
  have "map_option fst (scrape_page example_env (Some (example_obj 0)) example_world)
          = Some (scrape example_env (example_obj 0))"
    by (simp add: limiter_eval example_defs)
  then obtain r0 w0 where run0: "scrape_page example_env (Some (example_obj 0)) example_world = Some (r0, w0)"
    by auto
  have "map_option fst (scrape_page example_env (Some (example_obj 2)) example_world)
          = Some (scrape example_env (example_obj 2))"
    by (simp add: limiter_eval example_defs)
  then obtain r2 w2 where run2: "scrape_page example_env (Some (example_obj 2)) example_world = Some (r2, w2)"
    by auto
  have s0: "scrape example_env (example_obj 0)
     = Inr ((example_obj 0)\<lparr>cols := (cols (example_obj 0))\<lparr>scrape_attrs := [(''scrape_version'', ''submittedVersion'')]\<rparr>\<rparr>)"
    and s2: "scrape example_env (example_obj 2) = Inl ScrapeError"
    and d0: "netloc example_env (url (cols (example_obj 0))) = ''a.org''"
    and d2: "netloc example_env (url (cols (example_obj 2))) = ''c.org''"
    and t: "trace example_world = []" "clock example_world = 100"
    by (simp_all add: example_defs)
  have c: "map_option (\<lambda>r. clock (snd r)) (scrape_page example_env (Some (example_obj 0)) example_world) = Some 100"
    by (simp add: limiter_eval example_defs)
  from scrape_page_releases_on_return_only[of example_env "example_obj 0" example_world r0 w0]
       scrape_page_releases_on_return_only[of example_env "example_obj 2" example_world r2 w2]
       run0 run2 s0 s2 c
  show ?thesis
    by (simp add: d0 d2 t)
qed

subsection \<open>Facts about the claim of a chunk\<close>

lemma join_no_row:
  "qid \<notin> page_id ` set ps \<Longrightarrow>
   concat (map (\<lambda>p. if qid = page_id p then G p else []) ps) = []"
proof (induction ps)
  case Nil
  show ?case by simp
next
  case (Cons p ps)
  from Cons.prems have ne: "qid \<noteq> page_id p" and rest: "qid \<notin> page_id ` set ps"
    by simp_all
  have "concat (map (\<lambda>p. if qid = page_id p then G p else []) (p # ps))
          = concat (map (\<lambda>p. if qid = page_id p then G p else []) ps)"
    using ne by simp
  also have "\<dots> = []" by (rule Cons.IH[OF rest])
  finally show ?case .
qed

lemma join_one_row:
  assumes "distinct (map page_id ps)"
  shows "concat (map (\<lambda>p. if qid = page_id p then if S then if F p then [q] else [] else [] else []) ps)
           = (if S \<and> (\<exists>p\<in>set ps. page_id p = qid \<and> F p) then [q] else [])"
  using assms
proof (induction ps)
  case Nil
  show ?case by simp
next
  case (Cons p ps)
  let ?g = "\<lambda>p. if qid = page_id p then if S then if F p then [q] else [] else [] else []"
  from Cons.prems have dist: "distinct (map page_id ps)" and fresh: "page_id p \<notin> page_id ` set ps"
    by simp_all
  have split: "concat (map ?g (p # ps)) = ?g p @ concat (map ?g ps)"
    by simp
  show ?case
  proof (cases "qid = page_id p")
    case True
    with fresh have no: "qid \<notin> page_id ` set ps" by simp
    then have others: "\<forall>p'\<in>set ps. page_id p' \<noteq> qid" by blast
    have tail: "concat (map ?g ps) = []" by (rule join_no_row[OF no])
    have cell: "?g p = (if S \<and> F p then [q] else [])"
      using True by simp
    have rhs: "(if S \<and> F p then [q] else [])
                 = (if S \<and> (\<exists>p'\<in>set (p # ps). page_id p' = qid \<and> F p') then [q] else [])"
      using True others by auto
    have "concat (map ?g (p # ps)) = ?g p @ []" by (simp only: split tail)
    also have "\<dots> = (if S \<and> F p then [q] else [])" by (simp only: cell append_Nil2)
    finally show ?thesis by (simp only: rhs)
  next
    case False
    then have cell: "?g p = []"
      by simp
    have rhs: "(if S \<and> (\<exists>p\<in>set ps. page_id p = qid \<and> F p) then [q] else [])
                 = (if S \<and> (\<exists>p'\<in>set (p # ps). page_id p' = qid \<and> F p') then [q] else [])"
      using False by auto
    have "concat (map ?g (p # ps)) = [] @ concat (map ?g ps)" by (simp only: split cell)
    also have "\<dots> = (if S \<and> (\<exists>p\<in>set ps. page_id p = qid \<and> F p) then [q] else [])"
      by (simp only: append_Nil Cons.IH[OF dist])
    finally show ?thesis by (simp only: rhs)
  qed
qed


lemma concat_singletons_filter:
  "concat (map (\<lambda>x. if P x then [x] else []) xs) = filter P xs"
  by (induction xs) simp_all

lemma unclaimed_jobs_filter:
  assumes "distinct (map page_id (page_new w))"
  shows "unclaimed_jobs e sp w =
           filter (\<lambda>q. started q = None
                      \<and> (\<exists>p\<in>set (page_new w). page_id p = queue_id q
                            \<and> pmh_value_filter sp (oa_publisher_equivalent e) (pmh_id p)))
             (page_green_scrape_queue w)"
  unfolding unclaimed_jobs_def join_one_row[OF assms] by (rule concat_singletons_filter)

lemma update_chunk_subset:
  "set (update_chunk e n sp w) \<subseteq> queue_id ` set (unclaimed_jobs e sp w)"
proof -
  have "set (take n (sort_key order_key (unclaimed_jobs e sp w))) \<subseteq> set (unclaimed_jobs e sp w)"
    using set_take_subset[of n "sort_key order_key (unclaimed_jobs e sp w)"] by simp
  then show ?thesis
    unfolding update_chunk_def by auto
qed

lemma update_chunk_length:
  "length (update_chunk e n sp w) = min n (length (unclaimed_jobs e sp w))"
  by (simp add: update_chunk_def min.commute)

lemma update_chunk_all:
  assumes "length (unclaimed_jobs e sp w) \<le> n"
  shows "set (update_chunk e n sp w) = queue_id ` set (unclaimed_jobs e sp w)"
  using assms by (simp add: update_chunk_def)


text \<open>What \<open>fetch_queue_chunk\<close> returns and leaves behind, in terms of the chunk.\<close>

lemma fetch_queue_chunk_objects:
  "fst (fetch_queue_chunk e n sp w) =
     map (\<lambda>p. \<lparr>cols = p, sa_instance_state = Some Persistent\<rparr>)
       (filter (\<lambda>p. page_id p \<in> set (update_chunk e n sp w)) (page_new w))"
proof -
  have sub: "set (update_chunk e n sp w) \<subseteq> queue_id ` set (page_green_scrape_queue w)"
    using update_chunk_subset[of e n sp w] by (auto simp: unclaimed_jobs_def)
  have ids: "set (map queue_id (filter (\<lambda>q. queue_id q \<in> set (update_chunk e n sp w)) (page_green_scrape_queue w)))
          = set (update_chunk e n sp w)"
    using sub by auto
  have flt: "concat (map (\<lambda>x. if P x then [f x] else []) xs) = map f (filter P xs)"
    for P and f :: "'a \<Rightarrow> 'b" and xs
    by (induction xs) simp_all
  show ?thesis
    unfolding fetch_queue_chunk_def Let_def fst_conv flt
    by (simp only: ids) (simp add: execute_def)
qed

lemma fetch_queue_chunk_world:
  "snd (fetch_queue_chunk e n sp w) =
     execute (Fetch_chunk (map queue_id (filter (\<lambda>q. queue_id q \<in> set (update_chunk e n sp w)) (page_green_scrape_queue w))))
       (w\<lparr>page_green_scrape_queue := claim_rows (clock w) (update_chunk e n sp w) (page_green_scrape_queue w)\<rparr>)"
proof -
  have flt: "concat (map (\<lambda>x. if P x then [f x] else []) xs) = map f (filter P xs)"
    for P and f :: "'a \<Rightarrow> 'b" and xs
    by (induction xs) simp_all
  show ?thesis
    unfolding fetch_queue_chunk_def Let_def snd_conv flt ..
qed


lemma filter_by_key_length:
  assumes "distinct (map f xs)" and "S \<subseteq> f ` set xs"
  shows "length (filter (\<lambda>x. f x \<in> S) xs) = card S"
    and "distinct (map f (filter (\<lambda>x. f x \<in> S) xs))"
    and "set (map f (filter (\<lambda>x. f x \<in> S) xs)) = S"
proof -
  show d: "distinct (map f (filter (\<lambda>x. f x \<in> S) xs))"
    using assms(1) by (rule distinct_map_filter)
  show s: "set (map f (filter (\<lambda>x. f x \<in> S) xs)) = S"
    using assms(2) by auto
  have "length (filter (\<lambda>x. f x \<in> S) xs) = length (map f (filter (\<lambda>x. f x \<in> S) xs))"
    by simp
  also have "\<dots> = card (set (map f (filter (\<lambda>x. f x \<in> S) xs)))"
    using d by (simp only: distinct_card)
  finally show "length (filter (\<lambda>x. f x \<in> S) xs) = card S"
    by (simp only: s)
qed

lemma update_chunk_has_pages:
  assumes "distinct (map page_id (page_new w))"
  shows "set (update_chunk e n sp w) \<subseteq> page_id ` set (page_new w)"
proof
  fix x assume "x \<in> set (update_chunk e n sp w)"
  with update_chunk_subset[of e n sp w] obtain q
    where q: "q \<in> set (unclaimed_jobs e sp w)" "x = queue_id q" by auto
  from q(1) obtain p where "p \<in> set (page_new w)" "page_id p = queue_id q"
    unfolding unclaimed_jobs_filter[OF assms] by auto
  with q(2) show "x \<in> page_id ` set (page_new w)" by force
qed

lemma fetched_object_passes_filter:
  assumes dist: "distinct (map page_id (page_new w))"
    and obj: "obj \<in> set (fst (fetch_queue_chunk e n sp w))"
  shows "pmh_value_filter sp (oa_publisher_equivalent e) (pmh_id (cols obj))"
    and "cols obj \<in> set (page_new w)"
    and "sa_instance_state obj = Some Persistent"
    and "\<exists>q\<in>set (page_green_scrape_queue w). queue_id q = page_id (cols obj) \<and> started q = None"
proof -
  from obj obtain p where p: "p \<in> set (page_new w)" "page_id p \<in> set (update_chunk e n sp w)"
    "obj = \<lparr>cols = p, sa_instance_state = Some Persistent\<rparr>"
    unfolding fetch_queue_chunk_objects by auto
  from p(2) update_chunk_subset[of e n sp w] obtain q
    where q: "q \<in> set (unclaimed_jobs e sp w)" "page_id p = queue_id q" by auto
  from q(1) obtain p' where p': "q \<in> set (page_green_scrape_queue w)" "started q = None"
    "p' \<in> set (page_new w)" "page_id p' = queue_id q"
    "pmh_value_filter sp (oa_publisher_equivalent e) (pmh_id p')"
    unfolding unclaimed_jobs_filter[OF dist] by auto
  from dist have "\<forall>x\<in>set (page_new w). \<forall>y\<in>set (page_new w). page_id x = page_id y \<longrightarrow> x = y"
    by (simp add: distinct_map inj_on_def)
  with p(1) p'(3) have "page_id p' = page_id p \<longrightarrow> p' = p" by blast
  with p'(4) q(2) have "p' = p" by simp
  with p'(5) p(3) show "pmh_value_filter sp (oa_publisher_equivalent e) (pmh_id (cols obj))" by simp
  from p show "cols obj \<in> set (page_new w)" "sa_instance_state obj = Some Persistent" by simp_all
  from p'(1,2) q(2) p(3)
  show "\<exists>q\<in>set (page_green_scrape_queue w). queue_id q = page_id (cols obj) \<and> started q = None"
    by auto
qed




lemmas queue_eval = unclaimed_jobs_def update_chunk_def pmh_value_filter_def is_distinct_from_def
  sql_eq_def order_key_def fetch_queue_chunk_def claim_rows_def job_keys_def




text \<open>
  Claim C8. The filter of a claim with \<open>scrape_publisher\<close> true passes exactly the
  tag equal to \<open>oa_publisher_equivalent\<close>, the filter with \<open>scrape_publisher\<close> false
  passes exactly the tags distinct from it, the null tag among them: every tag passes
  exactly one of the two filters. With \<open>id\<close> a key of \<open>page_new\<close>, every job that
  \<open>fetch_queue_chunk\<close> returns has a tag that passes the filter of the call, so no job
  is returned both by a publisher claim and by a normal claim on the same store.
\<close>

theorem pmh_value_filter_partitions:
  "pmh_value_filter True pe tag = (tag = Some pe)
   \<and> pmh_value_filter False pe tag = (tag \<noteq> Some pe)
   \<and> pmh_value_filter False pe None
   \<and> pmh_value_filter True pe tag \<noteq> pmh_value_filter False pe tag
   \<and> (distinct (map page_id (page_new w)) \<longrightarrow>
        (\<forall>obj\<in>set (fst (fetch_queue_chunk e n True w)).
            pmh_id (cols obj) = Some (oa_publisher_equivalent e))
        \<and> (\<forall>obj\<in>set (fst (fetch_queue_chunk e n False w)).
            pmh_id (cols obj) \<noteq> Some (oa_publisher_equivalent e))
        \<and> set (fst (fetch_queue_chunk e n True w)) \<inter> set (fst (fetch_queue_chunk e m False w)) = {})"
proof -
  have t: "pmh_value_filter True pe tag = (tag = Some pe)" for pe tag
    by (cases tag) (simp_all add: pmh_value_filter_def sql_eq_def)
  have f: "pmh_value_filter False pe tag = (tag \<noteq> Some pe)" for pe tag
    by (cases tag) (simp_all add: pmh_value_filter_def is_distinct_from_def)
  have chunks: "(\<forall>obj\<in>set (fst (fetch_queue_chunk e n True w)).
            pmh_id (cols obj) = Some (oa_publisher_equivalent e))
        \<and> (\<forall>obj\<in>set (fst (fetch_queue_chunk e n False w)).
            pmh_id (cols obj) \<noteq> Some (oa_publisher_equivalent e))
        \<and> set (fst (fetch_queue_chunk e n True w)) \<inter> set (fst (fetch_queue_chunk e m False w)) = {}"
    if dist: "distinct (map page_id (page_new w))"
  proof -
    have pub: "pmh_id (cols obj) = Some (oa_publisher_equivalent e)"
      if "obj \<in> set (fst (fetch_queue_chunk e k True w))" for obj k
      using fetched_object_passes_filter(1)[OF dist that] by (simp add: t)
    have normal: "pmh_id (cols obj) \<noteq> Some (oa_publisher_equivalent e)"
      if "obj \<in> set (fst (fetch_queue_chunk e k False w))" for obj k
      using fetched_object_passes_filter(1)[OF dist that] by (simp add: f)
    from pub normal show ?thesis by blast
  qed
  from t[of pe tag] f[of pe tag] f[of pe None] chunks show ?thesis by auto
qed

text \<open>On the example store the publisher claim returns the third page, the normal claim the other two.\<close>

theorem pmh_value_filter_partitions_witness:
  "distinct (map page_id (page_new example_world))
   \<and> map (\<lambda>obj. page_id (cols obj)) (fst (fetch_queue_chunk example_env 3 True example_world)) = [''p3'']
   \<and> map (\<lambda>obj. page_id (cols obj)) (fst (fetch_queue_chunk example_env 3 False example_world)) = [''p1'', ''p2'']
   \<and> list_all (\<lambda>obj. pmh_id (cols obj) = Some ''publisher-equivalent'')
         (fst (fetch_queue_chunk example_env 3 True example_world))
   \<and> list_all (\<lambda>obj. pmh_id (cols obj) \<noteq> Some ''publisher-equivalent'')
         (fst (fetch_queue_chunk example_env 3 False example_world))"
proof -
  have d: "distinct (map page_id (page_new example_world))"
    by (simp add: example_defs)
  have pe: "oa_publisher_equivalent example_env = ''publisher-equivalent''"
    by (simp add: example_defs)
  have ids: "map (\<lambda>obj. page_id (cols obj)) (fst (fetch_queue_chunk example_env 3 True example_world)) = [''p3'']"
    "map (\<lambda>obj. page_id (cols obj)) (fst (fetch_queue_chunk example_env 3 False example_world)) = [''p1'', ''p2'']"
    by (simp_all add: queue_eval Let_def execute_def example_defs)
  from pmh_value_filter_partitions[of "''publisher-equivalent''" None example_world example_env 3 3] d ids
  show ?thesis
    by (simp only: pe list_all_iff) blast
qed

subsection \<open>Finishing a batch\<close>

lemma finish_batch_nth:
  "i < length qs \<Longrightarrow>
   finish_batch t ids qs ! i
     = (if queue_id (qs ! i) \<in> set ids then (qs ! i)\<lparr>started := None, finished := Some t\<rparr> else qs ! i)"
  by (simp add: finish_batch_def)

lemma finish_batch_twice:
  "finish_batch t2 ids (finish_batch t1 ids qs) = finish_batch t2 ids qs"
  by (induction qs) (simp_all add: finish_batch_def)

text \<open>
  Claim C5. The statement that finishes a batch is one statement; on the queue it sets
  \<open>finished\<close> to its time and \<open>started\<close> to null in the rows whose identifier is given
  and leaves every other row, and every other column, as it was. Run twice on the same
  identifiers, at times \<open>t1\<close> then \<open>t2\<close>, it leaves the queue as one run at \<open>t2\<close> does.
\<close>

theorem finish_batch_idempotent:
  "finish_batch t2 ids (finish_batch t1 ids qs) = finish_batch t2 ids qs
   \<and> length (finish_batch t ids qs) = length qs
   \<and> map queue_id (finish_batch t ids qs) = map queue_id qs
   \<and> map rand (finish_batch t ids qs) = map rand qs
   \<and> (\<forall>i<length qs.
         finish_batch t ids qs ! i
           = (if queue_id (qs ! i) \<in> set ids
              then (qs ! i)\<lparr>started := None, finished := Some t\<rparr> else qs ! i))
   \<and> trace (session_execute_finish_batch ids w) = trace w @ [Finish_batch (clock w) ids]
   \<and> session (session_execute_finish_batch ids w) = session w @ [Finish_batch (clock w) ids]
   \<and> apply_statement w (Finish_batch t ids)
        = w\<lparr>page_green_scrape_queue := finish_batch t ids (page_green_scrape_queue w)\<rparr>
   \<and> apply_statement (apply_statement w (Finish_batch t1 ids)) (Finish_batch t2 ids)
        = apply_statement w (Finish_batch t2 ids)"
proof -
  have cols: "map queue_id (finish_batch t ids qs) = map queue_id qs"
    "map rand (finish_batch t ids qs) = map rand qs"
    by (induction qs) (simp_all add: finish_batch_def)
  have sess: "trace (session_execute_finish_batch ids w) = trace w @ [Finish_batch (clock w) ids]"
    "session (session_execute_finish_batch ids w) = session w @ [Finish_batch (clock w) ids]"
    by (simp_all add: session_execute_finish_batch_def execute_def)
  have twice: "apply_statement (apply_statement w (Finish_batch t1 ids)) (Finish_batch t2 ids)
        = apply_statement w (Finish_batch t2 ids)"
    by (simp add: finish_batch_twice)
  have len: "length (finish_batch t ids qs) = length qs"
    by (simp add: finish_batch_def)
  from finish_batch_twice[of t2 ids t1 qs] len cols finish_batch_nth[of _ qs t ids] sess twice
  show ?thesis by simp
qed

theorem finish_batch_idempotent_witness:
  "(0::nat) < length example_queue
   \<and> finish_batch 200 [''p1'', ''p2''] example_queue ! 0
       = \<lparr>started = None, finished = Some 200, queue_id = ''p1'', rand = 1\<rparr>
   \<and> (2::nat) < length example_queue
   \<and> finish_batch 200 [''p1'', ''p2''] example_queue ! 2 = example_queue ! 2
   \<and> finish_batch 300 [''p1'', ''p2''] (finish_batch 200 [''p1'', ''p2''] example_queue)
       = finish_batch 300 [''p1'', ''p2''] example_queue"
proof -
  have l: "(0::nat) < length example_queue" "(2::nat) < length example_queue"
    by (simp_all add: example_defs)
  from finish_batch_idempotent[of 300 "[''p1'', ''p2'']" 200 example_queue 200 example_world] l
  have "finish_batch 200 [''p1'', ''p2''] example_queue ! 0
          = (if queue_id (example_queue ! 0) \<in> set [''p1'', ''p2'']
             then (example_queue ! 0)\<lparr>started := None, finished := Some 200\<rparr> else example_queue ! 0)"
    and "finish_batch 200 [''p1'', ''p2''] example_queue ! 2
          = (if queue_id (example_queue ! 2) \<in> set [''p1'', ''p2'']
             then (example_queue ! 2)\<lparr>started := None, finished := Some 200\<rparr> else example_queue ! 2)"
    and "finish_batch 300 [''p1'', ''p2''] (finish_batch 200 [''p1'', ''p2''] example_queue)
       = finish_batch 300 [''p1'', ''p2''] example_queue"
    by blast+
  with l show ?thesis
    by (simp add: example_defs)
qed

subsection \<open>Facts about the dispatcher\<close>

lemma begin_rate_limit_domain_frame:
  assumes "begin_rate_limit_domain d i w = Some w'"
  shows "page_new w' = page_new w"
    and "page_green_scrape_queue w' = page_green_scrape_queue w"
    and "session w' = session w"
    and "\<exists>stmts. trace w' = trace w @ stmts \<and> list_all rate_limit_statement stmts
           \<and> Begin_rate_limit d True \<in> set stmts"
proof -
  from begin_rate_limit_domain_result[OF assms] obtain k where k:
    "trace w' = trace w @ replicate k (Begin_rate_limit d False) @ [Begin_rate_limit d True]"
    "page_new w' = page_new w" "page_green_scrape_queue w' = page_green_scrape_queue w"
    "session w' = session w"
    by blast
  from k show "page_new w' = page_new w" "page_green_scrape_queue w' = page_green_scrape_queue w"
    "session w' = session w" by simp_all
  have "list_all rate_limit_statement (replicate k (Begin_rate_limit d False) @ [Begin_rate_limit d True])"
    by (simp add: list_all_iff)
  with k(1) show "\<exists>stmts. trace w' = trace w @ stmts \<and> list_all rate_limit_statement stmts
           \<and> Begin_rate_limit d True \<in> set stmts"
    by (intro exI[of _ "replicate k (Begin_rate_limit d False) @ [Begin_rate_limit d True]"]) simp
qed

lemma scrape_page_frame:
  assumes "scrape_page e page w = Some (r, w')"
  shows "page_new w' = page_new w"
    and "page_green_scrape_queue w' = page_green_scrape_queue w"
    and "session w' = session w"
    and "\<exists>stmts. trace w' = trace w @ stmts \<and> list_all rate_limit_statement stmts
           \<and> (\<forall>p'. r = Inr p' \<longrightarrow>
                 (\<exists>p. page = Some p \<and> scrape e p = Inr p'
                    \<and> Begin_rate_limit (netloc e (url (cols p))) True \<in> set stmts
                    \<and> End_rate_limit (netloc e (url (cols p))) \<in> set stmts))
           \<and> (\<forall>err. r = Inl err \<longrightarrow> page = None \<or> (\<exists>p. page = Some p \<and> scrape e p = Inl err))"
proof -
  have all: "page_new w' = page_new w \<and> page_green_scrape_queue w' = page_green_scrape_queue w
    \<and> session w' = session w
    \<and> (\<exists>stmts. trace w' = trace w @ stmts \<and> list_all rate_limit_statement stmts
           \<and> (\<forall>p'. r = Inr p' \<longrightarrow>
                 (\<exists>p. page = Some p \<and> scrape e p = Inr p'
                    \<and> Begin_rate_limit (netloc e (url (cols p))) True \<in> set stmts
                    \<and> End_rate_limit (netloc e (url (cols p))) \<in> set stmts))
           \<and> (\<forall>err. r = Inl err \<longrightarrow> page = None \<or> (\<exists>p. page = Some p \<and> scrape e p = Inl err)))"
  proof (cases page)
    case None
    with assms have "r = Inl AttributeError" "w' = w" by (simp_all add: scrape_page_def)
    with None show ?thesis by (simp add: exI[of _ "[]"])
  next
    case (Some p)
    let ?d = "netloc e (url (cols p))"
    from assms Some obtain w1 where acq: "begin_rate_limit_domain ?d 10 w = Some w1"
      by (auto simp: scrape_page_def split: option.splits)
    note fr = begin_rate_limit_domain_frame[OF acq]
    from fr(4) obtain stmts where st: "trace w1 = trace w @ stmts" "list_all rate_limit_statement stmts"
      "Begin_rate_limit ?d True \<in> set stmts" by blast
    show ?thesis
    proof (cases "scrape e p")
      case (Inl err)
      with assms Some acq have "r = Inl err" "w' = w1" by (simp_all add: scrape_page_def)
      with fr st Some Inl show ?thesis by auto
    next
      case (Inr p')
      with assms Some acq have r: "r = Inr p'" and w': "w' = end_rate_limit_domain ?d w1"
        by (simp_all add: scrape_page_def)
      have tr: "trace w' = trace w @ (stmts @ [End_rate_limit ?d])"
        by (simp add: w' end_rate_limit_domain_def execute_def st(1))
      have la: "list_all rate_limit_statement (stmts @ [End_rate_limit ?d])"
        using st(2) by simp
      have mem: "Begin_rate_limit ?d True \<in> set (stmts @ [End_rate_limit ?d])"
        "End_rate_limit ?d \<in> set (stmts @ [End_rate_limit ?d])"
        using st(3) by simp_all
      have frame: "page_new w' = page_new w" "page_green_scrape_queue w' = page_green_scrape_queue w"
        "session w' = session w"
        using fr(1,2,3) by (simp_all add: w' end_rate_limit_domain_def execute_def)
      from tr la mem frame r Some Inr show ?thesis by blast
    qed
  qed
  from all show "page_new w' = page_new w" "page_green_scrape_queue w' = page_green_scrape_queue w"
    "session w' = session w" by simp_all
  from all show "\<exists>stmts. trace w' = trace w @ stmts \<and> list_all rate_limit_statement stmts
           \<and> (\<forall>p'. r = Inr p' \<longrightarrow>
                 (\<exists>p. page = Some p \<and> scrape e p = Inr p'
                    \<and> Begin_rate_limit (netloc e (url (cols p))) True \<in> set stmts
                    \<and> End_rate_limit (netloc e (url (cols p))) \<in> set stmts))
           \<and> (\<forall>err. r = Inl err \<longrightarrow> page = None \<or> (\<exists>p. page = Some p \<and> scrape e p = Inl err))"
    by simp
qed


lemma pool_map_frame:
  assumes "pool_map e pages w = Some (r, w')"
  shows "page_new w' = page_new w \<and> page_green_scrape_queue w' = page_green_scrape_queue w
    \<and> session w' = session w
    \<and> (\<exists>stmts. trace w' = trace w @ stmts \<and> list_all rate_limit_statement stmts
          \<and> (\<forall>scraped. r = Inr scraped \<longrightarrow>
                list_all2 (\<lambda>page p'. \<exists>p. page = Some p \<and> scrape e p = Inr p'
                              \<and> Begin_rate_limit (netloc e (url (cols p))) True \<in> set stmts
                              \<and> End_rate_limit (netloc e (url (cols p))) \<in> set stmts)
                  pages scraped)
          \<and> (\<forall>err. r = Inl err \<longrightarrow>
                (\<exists>page\<in>set pages. page = None \<or> (\<exists>p. page = Some p \<and> scrape e p = Inl err))))"
  using assms
proof (induction pages arbitrary: w r w')
  case Nil
  then have "r = Inr []" "w' = w" by simp_all
  then show ?case by (simp add: exI[of _ "[]"])
next
  case (Cons page pages)
  from Cons.prems obtain r1 w1 where one: "scrape_page e page w = Some (r1, w1)"
    by (cases "scrape_page e page w") auto
  from Cons.prems one obtain r2 w2 where rest: "pool_map e pages w1 = Some (r2, w2)"
    by (cases "pool_map e pages w1") auto
  from Cons.prems one rest
  have r: "r = (case r1 of Inl err \<Rightarrow> Inl err
                 | Inr p \<Rightarrow> (case r2 of Inl err \<Rightarrow> Inl err | Inr ps \<Rightarrow> Inr (p # ps)))"
    and w': "w' = w2"
    by simp_all
  note f1 = scrape_page_frame[OF one]
  from f1(4) obtain s1 where s1: "trace w1 = trace w @ s1" "list_all rate_limit_statement s1"
    "\<forall>p'. r1 = Inr p' \<longrightarrow>
       (\<exists>p. page = Some p \<and> scrape e p = Inr p'
          \<and> Begin_rate_limit (netloc e (url (cols p))) True \<in> set s1
          \<and> End_rate_limit (netloc e (url (cols p))) \<in> set s1)"
    "\<forall>err. r1 = Inl err \<longrightarrow> page = None \<or> (\<exists>p. page = Some p \<and> scrape e p = Inl err)"
    by blast
  from Cons.IH[OF rest] obtain s2 where s2:
    "page_new w2 = page_new w1" "page_green_scrape_queue w2 = page_green_scrape_queue w1"
    "session w2 = session w1" "trace w2 = trace w1 @ s2" "list_all rate_limit_statement s2"
    "\<forall>scraped. r2 = Inr scraped \<longrightarrow>
        list_all2 (\<lambda>page p'. \<exists>p. page = Some p \<and> scrape e p = Inr p'
                      \<and> Begin_rate_limit (netloc e (url (cols p))) True \<in> set s2
                      \<and> End_rate_limit (netloc e (url (cols p))) \<in> set s2)
          pages scraped"
    "\<forall>err. r2 = Inl err \<longrightarrow>
        (\<exists>page\<in>set pages. page = None \<or> (\<exists>p. page = Some p \<and> scrape e p = Inl err))"
    by blast
  have frame: "page_new w' = page_new w" "page_green_scrape_queue w' = page_green_scrape_queue w"
    "session w' = session w" "trace w' = trace w @ (s1 @ s2)" "list_all rate_limit_statement (s1 @ s2)"
    using f1(1,2,3) s1(1,2) s2(1-5) by (simp_all add: w')
  have returned: "list_all2 (\<lambda>page p'. \<exists>p. page = Some p \<and> scrape e p = Inr p'
                        \<and> Begin_rate_limit (netloc e (url (cols p))) True \<in> set (s1 @ s2)
                        \<and> End_rate_limit (netloc e (url (cols p))) \<in> set (s1 @ s2))
                    (page # pages) scraped"
    if sc: "r = Inr scraped" for scraped
  proof -
    from sc r obtain p1 where r1: "r1 = Inr p1" by (cases r1) auto
    from sc r r1 obtain ps where r2: "r2 = Inr ps" by (cases r2) auto
    from sc r r1 r2 have scraped: "scraped = p1 # ps" by simp
    from s1(3) r1 obtain p where p: "page = Some p" "scrape e p = Inr p1"
      "Begin_rate_limit (netloc e (url (cols p))) True \<in> set (s1 @ s2)"
      "End_rate_limit (netloc e (url (cols p))) \<in> set (s1 @ s2)"
      by auto
    from s2(6) r2 have "list_all2 (\<lambda>page p'. \<exists>p. page = Some p \<and> scrape e p = Inr p'
                        \<and> Begin_rate_limit (netloc e (url (cols p))) True \<in> set s2
                        \<and> End_rate_limit (netloc e (url (cols p))) \<in> set s2) pages ps"
      by simp
    then have "list_all2 (\<lambda>page p'. \<exists>p. page = Some p \<and> scrape e p = Inr p'
                        \<and> Begin_rate_limit (netloc e (url (cols p))) True \<in> set (s1 @ s2)
                        \<and> End_rate_limit (netloc e (url (cols p))) \<in> set (s1 @ s2)) pages ps"
      by (rule list_all2_mono) auto
    with p scraped show ?thesis by simp
  qed
  have raised: "\<exists>page'\<in>set (page # pages). page' = None \<or> (\<exists>p. page' = Some p \<and> scrape e p = Inl err)"
    if er: "r = Inl err" for err
  proof (cases r1)
    case (Inl err1)
    with er r have "err1 = err" by simp
    with s1(4) Inl show ?thesis by auto
  next
    case (Inr p1)
    with er r have "r2 = Inl err" by (cases r2) auto
    with s2(7) show ?thesis by auto
  qed
  from frame returned raised show ?case by blast
qed

text \<open>
  A batch whose first page raises: the second page is still acquired, scraped and
  released, and the exception of the first comes out at the end.
\<close>

lemma pool_map_after_failure:
  "map_option fst (pool_map example_env [Some (example_obj 2), Some (example_obj 0)] example_world)
     = Some (Inl ScrapeError)
   \<and> map_option (\<lambda>r. trace (snd r))
       (pool_map example_env [Some (example_obj 2), Some (example_obj 0)] example_world)
     = Some [Begin_rate_limit ''c.org'' True, Begin_rate_limit ''a.org'' True, End_rate_limit ''a.org'']"
  by (simp add: limiter_eval example_defs)

lemma for_each_make_transient:
  "for_each make_transient (map Some objects) =
     (if list_all (\<lambda>obj. sa_instance_state obj \<noteq> None) objects
      then Inr (map (\<lambda>obj. Some (obj\<lparr>sa_instance_state := Some Transient\<rparr>)) objects)
      else Inl AttributeError)"
  by (induction objects) (auto simp: make_transient_def split: option.splits)

lemma for_each_make_transient_None:
  "None \<in> set pages \<Longrightarrow> for_each make_transient pages = Inl AttributeError"
  by (induction pages) (auto simp: make_transient_def split: option.splits sum.splits)

lemma for_each_pop:
  "for_each pop_sa_instance_state scraped =
     (if list_all (\<lambda>p. sa_instance_state p \<noteq> None) scraped
      then Inr (map (\<lambda>p. p\<lparr>sa_instance_state := None\<rparr>) scraped)
      else Inl KeyError)"
  by (induction scraped) (auto simp: pop_sa_instance_state_def split: option.splits)


lemma scrape_pages_result:
  assumes "scrape_pages e (map Some objects) w = Some (Inr u, w')"
  shows "\<exists>stmts scraped.
           trace w' = trace w @ stmts @ [Bulk_update (map (\<lambda>p. p\<lparr>sa_instance_state := None\<rparr>) scraped)]
         \<and> list_all rate_limit_statement stmts
         \<and> list_all2 (\<lambda>obj p'. scrape e (obj\<lparr>sa_instance_state := Some Transient\<rparr>) = Inr p'
                         \<and> Begin_rate_limit (netloc e (url (cols obj))) True \<in> set stmts
                         \<and> End_rate_limit (netloc e (url (cols obj))) \<in> set stmts)
             objects scraped
         \<and> session w' = [Bulk_update (map (\<lambda>p. p\<lparr>sa_instance_state := None\<rparr>) scraped)]
         \<and> page_new w' = page_new w
         \<and> page_green_scrape_queue w' = page_green_scrape_queue w"
proof -
  let ?transient = "map (\<lambda>obj. Some (obj\<lparr>sa_instance_state := Some Transient\<rparr>)) objects"
  from assms have mt: "for_each make_transient (map Some objects) = Inr ?transient"
    by (auto simp: scrape_pages_def for_each_make_transient split: if_splits)
  from assms mt obtain r1 w1 where pool: "pool_map e ?transient (close_session w) = Some (r1, w1)"
    by (cases "pool_map e ?transient (close_session w)") (auto simp: scrape_pages_def)
  from assms mt pool obtain scraped where r1: "r1 = Inr scraped"
    by (cases r1) (auto simp: scrape_pages_def)
  from assms mt pool r1 have pop: "for_each pop_sa_instance_state scraped
      = Inr (map (\<lambda>p. p\<lparr>sa_instance_state := None\<rparr>) scraped)"
    and w': "w' = bulk_update_mappings (map (\<lambda>p. p\<lparr>sa_instance_state := None\<rparr>) scraped) w1"
    by (auto simp: scrape_pages_def for_each_pop split: if_splits)
  from pool_map_frame[OF pool] r1 obtain stmts where st:
    "page_new w1 = page_new (close_session w)"
    "page_green_scrape_queue w1 = page_green_scrape_queue (close_session w)"
    "session w1 = session (close_session w)"
    "trace w1 = trace (close_session w) @ stmts" "list_all rate_limit_statement stmts"
    "list_all2 (\<lambda>page p'. \<exists>p. page = Some p \<and> scrape e p = Inr p'
                  \<and> Begin_rate_limit (netloc e (url (cols p))) True \<in> set stmts
                  \<and> End_rate_limit (netloc e (url (cols p))) \<in> set stmts)
       ?transient scraped"
    by blast
  from st(6) have jobs: "list_all2 (\<lambda>obj p'. scrape e (obj\<lparr>sa_instance_state := Some Transient\<rparr>) = Inr p'
                         \<and> Begin_rate_limit (netloc e (url (cols obj))) True \<in> set stmts
                         \<and> End_rate_limit (netloc e (url (cols obj))) \<in> set stmts)
             objects scraped"
    by (simp add: list_all2_map1)
  have "trace w' = trace w @ stmts @ [Bulk_update (map (\<lambda>p. p\<lparr>sa_instance_state := None\<rparr>) scraped)]"
    "session w' = [Bulk_update (map (\<lambda>p. p\<lparr>sa_instance_state := None\<rparr>) scraped)]"
    "page_new w' = page_new w" "page_green_scrape_queue w' = page_green_scrape_queue w"
    using st(1-4) by (simp_all add: w' bulk_update_mappings_def execute_def close_session_def)
  with st(5) jobs show ?thesis by blast
qed


lemma process_batch_result:
  assumes "process_batch e index objects w = Some (Inr u, w')"
  shows "\<exists>w1. scrape_pages e (map Some objects) w = Some (Inr (), w1)
           \<and> w' = snd (safe_commit e index
                    (session_execute_finish_batch (map (\<lambda>obj. page_id (cols obj)) objects) w1))
           \<and> trace w' = trace w1 @ [Finish_batch (clock w1) (map (\<lambda>obj. page_id (cols obj)) objects),
                                     Commit (commit_ok e index)]
           \<and> session w' = []"
proof -
  from assms obtain r1 w1 where sp: "scrape_pages e (map Some objects) w = Some (r1, w1)"
    by (cases "scrape_pages e (map Some objects) w") (auto simp: process_batch_def)
  from assms sp have r1: "r1 = Inr ()"
    and w': "w' = snd (safe_commit e index
                    (session_execute_finish_batch (map (\<lambda>obj. page_id (cols obj)) objects) w1))"
    by (cases r1; simp add: process_batch_def)+
  have "trace w' = trace w1 @ [Finish_batch (clock w1) (map (\<lambda>obj. page_id (cols obj)) objects),
                                     Commit (commit_ok e index)]"
    "session w' = []"
  proof -
    let ?w2 = "session_execute_finish_batch (map (\<lambda>obj. page_id (cols obj)) objects) w1"
    have keep: "trace (foldl apply_statement v ss) = trace v" for v ss
    proof (induction ss arbitrary: v)
      case Nil
      show ?case by simp
    next
      case (Cons s ss)
      have "trace (apply_statement v s) = trace v" by (cases s) simp_all
      with Cons show ?case by simp
    qed
    show "trace w' = trace w1 @ [Finish_batch (clock w1) (map (\<lambda>obj. page_id (cols obj)) objects),
                                     Commit (commit_ok e index)]"
      by (simp add: w' safe_commit_def execute_def keep)
         (simp add: session_execute_finish_batch_def execute_def)
    show "session w' = []"
      by (simp add: w' safe_commit_def execute_def)
  qed
  with sp r1 w' show ?thesis by simp
qed

text \<open>
  Claim C4. A batch goes through \<open>scrape_pages\<close>, the statement that finishes it and
  the commit. When \<open>scrape_pages\<close> returns, every job of the batch has been through the
  scrape under its domain's lock (a granted acquire and a release were sent for it),
  and the last statement sent is one bulk update with one row for each job, the
  \<open>_sa_instance_state\<close> entry removed from every row. The statement that finishes the
  batch's identifiers is sent after that bulk update, and the commit after both.
\<close>

theorem process_batch_persists_after_barrier_before_complete:
  "(scrape_pages e (map Some objects) w = Some (Inr u, w1) \<longrightarrow>
      (\<exists>stmts scraped.
          trace w1 = trace w @ stmts @ [Bulk_update (map (\<lambda>p. p\<lparr>sa_instance_state := None\<rparr>) scraped)]
        \<and> list_all rate_limit_statement stmts
        \<and> list_all2 (\<lambda>obj p'. scrape e (obj\<lparr>sa_instance_state := Some Transient\<rparr>) = Inr p'
                        \<and> Begin_rate_limit (netloc e (url (cols obj))) True \<in> set stmts
                        \<and> End_rate_limit (netloc e (url (cols obj))) \<in> set stmts)
            objects scraped
        \<and> length (map (\<lambda>p. p\<lparr>sa_instance_state := None\<rparr>) scraped) = length objects
        \<and> list_all (\<lambda>row. sa_instance_state row = None) (map (\<lambda>p. p\<lparr>sa_instance_state := None\<rparr>) scraped)))
   \<and> (process_batch e index objects w = Some (Inr u, w') \<longrightarrow>
      (\<exists>stmts scraped t.
          trace w' = trace w @ stmts
                       @ [Bulk_update (map (\<lambda>p. p\<lparr>sa_instance_state := None\<rparr>) scraped),
                          Finish_batch t (map (\<lambda>obj. page_id (cols obj)) objects),
                          Commit (commit_ok e index)]
        \<and> list_all rate_limit_statement stmts
        \<and> list_all2 (\<lambda>obj p'. scrape e (obj\<lparr>sa_instance_state := Some Transient\<rparr>) = Inr p'
                        \<and> Begin_rate_limit (netloc e (url (cols obj))) True \<in> set stmts
                        \<and> End_rate_limit (netloc e (url (cols obj))) \<in> set stmts)
            objects scraped
        \<and> length (map (\<lambda>p. p\<lparr>sa_instance_state := None\<rparr>) scraped) = length objects
        \<and> list_all (\<lambda>row. sa_instance_state row = None) (map (\<lambda>p. p\<lparr>sa_instance_state := None\<rparr>) scraped)))"
proof -
  have dispatcher: "\<exists>stmts scraped.
          trace w1 = trace w @ stmts @ [Bulk_update (map (\<lambda>p. p\<lparr>sa_instance_state := None\<rparr>) scraped)]
        \<and> list_all rate_limit_statement stmts
        \<and> list_all2 (\<lambda>obj p'. scrape e (obj\<lparr>sa_instance_state := Some Transient\<rparr>) = Inr p'
                        \<and> Begin_rate_limit (netloc e (url (cols obj))) True \<in> set stmts
                        \<and> End_rate_limit (netloc e (url (cols obj))) \<in> set stmts)
            objects scraped
        \<and> length (map (\<lambda>p. p\<lparr>sa_instance_state := None\<rparr>) scraped) = length objects
        \<and> list_all (\<lambda>row. sa_instance_state row = None) (map (\<lambda>p. p\<lparr>sa_instance_state := None\<rparr>) scraped)"
    if run: "scrape_pages e (map Some objects) w = Some (Inr u, w1)" for w1 u
  proof -
    from scrape_pages_result[OF run] obtain stmts scraped where r:
      "trace w1 = trace w @ stmts @ [Bulk_update (map (\<lambda>p. p\<lparr>sa_instance_state := None\<rparr>) scraped)]"
      "list_all rate_limit_statement stmts"
      "list_all2 (\<lambda>obj p'. scrape e (obj\<lparr>sa_instance_state := Some Transient\<rparr>) = Inr p'
                        \<and> Begin_rate_limit (netloc e (url (cols obj))) True \<in> set stmts
                        \<and> End_rate_limit (netloc e (url (cols obj))) \<in> set stmts)
            objects scraped"
      by blast
    from r(3) have "length (map (\<lambda>p. p\<lparr>sa_instance_state := None\<rparr>) scraped) = length objects"
      by (simp add: list_all2_lengthD)
    moreover have "list_all (\<lambda>row. sa_instance_state row = None) (map (\<lambda>p. p\<lparr>sa_instance_state := None\<rparr>) scraped)"
      by (simp add: list_all_iff)
    ultimately show ?thesis using r by blast
  qed
  have batch: "\<exists>stmts scraped t.
          trace w' = trace w @ stmts
                       @ [Bulk_update (map (\<lambda>p. p\<lparr>sa_instance_state := None\<rparr>) scraped),
                          Finish_batch t (map (\<lambda>obj. page_id (cols obj)) objects),
                          Commit (commit_ok e index)]
        \<and> list_all rate_limit_statement stmts
        \<and> list_all2 (\<lambda>obj p'. scrape e (obj\<lparr>sa_instance_state := Some Transient\<rparr>) = Inr p'
                        \<and> Begin_rate_limit (netloc e (url (cols obj))) True \<in> set stmts
                        \<and> End_rate_limit (netloc e (url (cols obj))) \<in> set stmts)
            objects scraped
        \<and> length (map (\<lambda>p. p\<lparr>sa_instance_state := None\<rparr>) scraped) = length objects
        \<and> list_all (\<lambda>row. sa_instance_state row = None) (map (\<lambda>p. p\<lparr>sa_instance_state := None\<rparr>) scraped)"
    if run: "process_batch e index objects w = Some (Inr u, w')"
  proof -
    from process_batch_result[OF run] obtain w2 where w2:
      "scrape_pages e (map Some objects) w = Some (Inr (), w2)"
      "trace w' = trace w2 @ [Finish_batch (clock w2) (map (\<lambda>obj. page_id (cols obj)) objects),
                                     Commit (commit_ok e index)]"
      by blast
    from dispatcher[OF w2(1)] obtain stmts scraped where r:
      "trace w2 = trace w @ stmts @ [Bulk_update (map (\<lambda>p. p\<lparr>sa_instance_state := None\<rparr>) scraped)]"
      "list_all rate_limit_statement stmts"
      "list_all2 (\<lambda>obj p'. scrape e (obj\<lparr>sa_instance_state := Some Transient\<rparr>) = Inr p'
                        \<and> Begin_rate_limit (netloc e (url (cols obj))) True \<in> set stmts
                        \<and> End_rate_limit (netloc e (url (cols obj))) \<in> set stmts)
            objects scraped"
      "length (map (\<lambda>p. p\<lparr>sa_instance_state := None\<rparr>) scraped) = length objects"
      "list_all (\<lambda>row. sa_instance_state row = None) (map (\<lambda>p. p\<lparr>sa_instance_state := None\<rparr>) scraped)"
      by blast
    have "trace w' = trace w @ stmts
                       @ [Bulk_update (map (\<lambda>p. p\<lparr>sa_instance_state := None\<rparr>) scraped),
                          Finish_batch (clock w2) (map (\<lambda>obj. page_id (cols obj)) objects),
                          Commit (commit_ok e index)]"
      by (simp add: w2(2) r(1))
    with r(2-5) show ?thesis by blast
  qed
  from dispatcher[of u w1] batch show ?thesis by blast
qed


lemmas batch_eval = process_batch_def scrape_pages_def make_transient_def pop_sa_instance_state_def
  bulk_update_mappings_def close_session_def safe_commit_def session_execute_finish_batch_def
  update_mapping_def finish_batch_def

text \<open>The first two pages of the example store as a batch.\<close>

theorem process_batch_persists_after_barrier_before_complete_witness:
  "map_option fst (process_batch example_env 0 [example_obj 0, example_obj 1] example_world) = Some (Inr ())
   \<and> map_option (\<lambda>r. trace (snd r)) (process_batch example_env 0 [example_obj 0, example_obj 1] example_world)
       = Some [Begin_rate_limit ''a.org'' True, End_rate_limit ''a.org'',
               Begin_rate_limit ''b.org'' True, End_rate_limit ''b.org'',
               Bulk_update
                 [\<lparr>cols = (example_pages ! 0)\<lparr>scrape_attrs := [(''scrape_version'', ''submittedVersion'')]\<rparr>,
                   sa_instance_state = None\<rparr>,
                  \<lparr>cols = (example_pages ! 1)\<lparr>scrape_attrs := [(''scrape_version'', ''submittedVersion'')]\<rparr>,
                   sa_instance_state = None\<rparr>],
               Finish_batch 100 [''p1'', ''p2''],
               Commit True]"
proof -
  have tr: "map_option (\<lambda>r. trace (snd r)) (process_batch example_env 0 [example_obj 0, example_obj 1] example_world)
       = Some [Begin_rate_limit ''a.org'' True, End_rate_limit ''a.org'',
               Begin_rate_limit ''b.org'' True, End_rate_limit ''b.org'',
               Bulk_update
                 [\<lparr>cols = (example_pages ! 0)\<lparr>scrape_attrs := [(''scrape_version'', ''submittedVersion'')]\<rparr>,
                   sa_instance_state = None\<rparr>,
                  \<lparr>cols = (example_pages ! 1)\<lparr>scrape_attrs := [(''scrape_version'', ''submittedVersion'')]\<rparr>,
                   sa_instance_state = None\<rparr>],
               Finish_batch 100 [''p1'', ''p2''],
               Commit True]"
    by (simp add: batch_eval limiter_eval example_defs)
  have ok: "map_option fst (process_batch example_env 0 [example_obj 0, example_obj 1] example_world) = Some (Inr ())"
    by (simp add: batch_eval limiter_eval example_defs)
  then obtain w' where run: "process_batch example_env 0 [example_obj 0, example_obj 1] example_world = Some (Inr (), w')"
    by auto
  from process_batch_persists_after_barrier_before_complete
         [of example_env "[example_obj 0, example_obj 1]" example_world "()" w' 0 w'] run
  obtain stmts scraped t where
    "trace w' = trace example_world @ stmts
                  @ [Bulk_update (map (\<lambda>p. p\<lparr>sa_instance_state := None\<rparr>) scraped),
                     Finish_batch t (map (\<lambda>obj. page_id (cols obj)) [example_obj 0, example_obj 1]),
                     Commit (commit_ok example_env 0)]"
    by blast
  with tr ok show ?thesis by simp
qed

subsection \<open>The single-job mode\<close>

text \<open>
  Claim C9. In the single-job mode, when no row of \<open>page_new\<close> has the given
  identifier, the query yields \<open>None\<close>, \<open>worker_run\<close> passes the list of this one
  \<open>None\<close> to \<open>scrape_pages\<close>, and \<open>make_transient\<close> raises on it (as the attribute
  access of \<open>scrape_page\<close> would): the run ends with the exception, nothing is sent to
  the store and nothing reports that the job was not found.
\<close>

theorem worker_run_single_missing_raises:
  "find (\<lambda>p. page_id p = c # cs) (page_new w) = None \<longrightarrow>
     query_first (c # cs) w = None
     \<and> make_transient None = Inl AttributeError
     \<and> scrape_page e None w = Some (Inl AttributeError, w)
     \<and> scrape_pages e [query_first (c # cs) w] w = Some (Inl AttributeError, w)
     \<and> worker_run e (Some (c # cs)) chunk_size limit scrape_publisher w = Some (Inl AttributeError, w)"
  by (simp add: query_first_def make_transient_def scrape_page_def scrape_pages_def worker_run_def)

theorem worker_run_single_missing_raises_witness:
  "find (\<lambda>p. page_id p = ''p9'') (page_new example_world) = None
   \<and> map_option fst (worker_run example_env (Some ''p9'') 100 None False example_world)
       = Some (Inl AttributeError)
   \<and> map_option (\<lambda>r. trace (snd r)) (worker_run example_env (Some ''p9'') 100 None False example_world)
       = Some []"
proof -
  have f: "find (\<lambda>p. page_id p = ''p9'') (page_new example_world) = None"
    by (simp add: example_defs)
  from worker_run_single_missing_raises
         [of "CHR ''p''" "''9''" example_world example_env 100 None False] f
  show ?thesis
    by (simp add: example_defs)
qed

subsection \<open>Facts about the loop of the continuous mode\<close>



lemma fetch_queue_chunk_frame:
  "page_new (snd (fetch_queue_chunk e n sp w)) = page_new w"
  "map queue_id (page_green_scrape_queue (snd (fetch_queue_chunk e n sp w)))
     = map queue_id (page_green_scrape_queue w)"
  "session (snd (fetch_queue_chunk e n sp w)) = session w"
  "\<exists>ids. trace (snd (fetch_queue_chunk e n sp w)) = trace w @ [Fetch_chunk ids]"
  by (simp_all add: fetch_queue_chunk_world execute_def claim_rows_def comp_def)

lemma fetch_queue_chunk_length_le:
  assumes "distinct (map page_id (page_new w))"
  shows "length (fst (fetch_queue_chunk e n sp w)) \<le> n"
proof -
  let ?S = "set (update_chunk e n sp w)"
  have "length (fst (fetch_queue_chunk e n sp w)) = length (filter (\<lambda>p. page_id p \<in> ?S) (page_new w))"
    unfolding fetch_queue_chunk_objects by simp
  also have "\<dots> = card ?S"
    by (rule filter_by_key_length(1)[OF assms update_chunk_has_pages[OF assms]])
  also have "\<dots> \<le> length (update_chunk e n sp w)" by (rule card_length)
  also have "\<dots> \<le> n" by (simp add: update_chunk_length)
  finally show ?thesis .
qed


lemma update_mapping_ids: "map page_id (update_mapping d tbl) = map page_id tbl"
  by (induction tbl) (simp_all add: update_mapping_def)

lemma bulk_update_ids:
  "map page_id (foldl (\<lambda>tbl d. update_mapping d tbl) tbl ds) = map page_id tbl"
  by (induction ds arbitrary: tbl) (simp_all add: update_mapping_ids)

lemma finish_batch_ids: "map queue_id (finish_batch t ids qs) = map queue_id qs"
  by (induction qs) (simp_all add: finish_batch_def)

lemma apply_statement_ids:
  "map page_id (page_new (apply_statement w s)) = map page_id (page_new w)"
  "map queue_id (page_green_scrape_queue (apply_statement w s)) = map queue_id (page_green_scrape_queue w)"
  by (cases s; simp add: bulk_update_ids finish_batch_ids)+

lemma apply_statements_ids:
  "map page_id (page_new (foldl apply_statement w ss)) = map page_id (page_new w)"
  "map queue_id (page_green_scrape_queue (foldl apply_statement w ss)) = map queue_id (page_green_scrape_queue w)"
  by (induction ss arbitrary: w) (simp_all add: apply_statement_ids)

lemma safe_commit_ids:
  "map page_id (page_new (snd (safe_commit e index w))) = map page_id (page_new w)"
  "map queue_id (page_green_scrape_queue (snd (safe_commit e index w))) = map queue_id (page_green_scrape_queue w)"
  by (simp_all add: safe_commit_def execute_def apply_statements_ids)

lemma scrape_pages_frame:
  assumes "scrape_pages e pages w = Some (r, w')"
  shows "page_new w' = page_new w" and "page_green_scrape_queue w' = page_green_scrape_queue w"
proof -
  have "page_new w' = page_new w \<and> page_green_scrape_queue w' = page_green_scrape_queue w"
  proof (cases "for_each make_transient pages")
    case (Inl err)
    with assms show ?thesis by (simp add: scrape_pages_def)
  next
    case (Inr transient)
    with assms obtain r1 w1 where pool: "pool_map e transient (close_session w) = Some (r1, w1)"
      by (cases "pool_map e transient (close_session w)") (auto simp: scrape_pages_def)
    from pool_map_frame[OF pool]
    have fr: "page_new w1 = page_new w" "page_green_scrape_queue w1 = page_green_scrape_queue w"
      by (simp_all add: close_session_def)
    show ?thesis
    proof (cases r1)
      case (Inl err)
      with assms Inr pool have "w' = w1" by (simp add: scrape_pages_def)
      with fr show ?thesis by simp
    next
      case r1: (Inr scraped)
      with assms Inr pool
      have "w' = w1 \<or> (\<exists>rows. w' = bulk_update_mappings rows w1)"
        by (cases "for_each pop_sa_instance_state scraped") (auto simp: scrape_pages_def)
      with fr show ?thesis by (auto simp: bulk_update_mappings_def execute_def)
    qed
  qed
  then show "page_new w' = page_new w" and "page_green_scrape_queue w' = page_green_scrape_queue w"
    by simp_all
qed

lemma process_batch_ids:
  assumes "process_batch e index objects w = Some (r, w')"
  shows "map page_id (page_new w') = map page_id (page_new w)"
    and "map queue_id (page_green_scrape_queue w') = map queue_id (page_green_scrape_queue w)"
proof -
  from assms obtain r1 w1 where sp: "scrape_pages e (map Some objects) w = Some (r1, w1)"
    by (cases "scrape_pages e (map Some objects) w") (auto simp: process_batch_def)
  note fr = scrape_pages_frame[OF sp]
  have "map page_id (page_new w') = map page_id (page_new w)
      \<and> map queue_id (page_green_scrape_queue w') = map queue_id (page_green_scrape_queue w)"
  proof (cases r1)
    case (Inl err)
    with assms sp have "w' = w1" by (simp add: process_batch_def)
    with fr show ?thesis by simp
  next
    case (Inr u)
    with assms sp have "w' = snd (safe_commit e index
        (session_execute_finish_batch (map (\<lambda>obj. page_id (cols obj)) objects) w1))"
      by (simp add: process_batch_def)
    with fr show ?thesis
      by (simp add: safe_commit_ids) (simp add: session_execute_finish_batch_def execute_def)
  qed
  then show "map page_id (page_new w') = map page_id (page_new w)"
    and "map queue_id (page_green_scrape_queue w') = map queue_id (page_green_scrape_queue w)"
    by simp_all
qed






lemma worker_loop_count:
  assumes "worker_loop e cs sp limit index k w = Some res"
  shows "\<forall>L n w'. limit = Some L \<longrightarrow> res = (Inr n, w') \<longrightarrow> distinct (map page_id (page_new w)) \<longrightarrow>
           (L \<le> int k \<longrightarrow> n = k) \<and> (int k < L \<longrightarrow> L \<le> int n \<and> int n < L + int cs)"
  using assms
proof (induction rule: worker_loop.raw_induct[rotated 1, consumes 1])
  case (1 loop e cs sp limit index k w res)
  show ?case
  proof (intro allI impI)
    fix L n w'
    assume lim: "limit = Some L" and res: "res = (Inr n, w')"
      and dist: "distinct (map page_id (page_new w))"
    show "(L \<le> int k \<longrightarrow> n = k) \<and> (int k < L \<longrightarrow> L \<le> int n \<and> int n < L + int cs)"
    proof (cases "int k < L")
      case stop: False
      with lim have "\<not> below_limit k limit" by (simp add: below_limit_def)
      with 1(2) res have "n = k" by simp
      with stop show ?thesis by simp
    next
      case below: True
      with lim have bl: "below_limit k limit" by (simp add: below_limit_def)
      obtain objects w1 where f: "fetch_queue_chunk e cs sp w = (objects, w1)"
        by (cases "fetch_queue_chunk e cs sp w")
      from fetch_queue_chunk_frame(1)[of e cs sp w] f have p1: "page_new w1 = page_new w" by simp
      from fetch_queue_chunk_length_le[OF dist, of e cs sp] f have len: "length objects \<le> cs" by simp
      show ?thesis
      proof (cases "objects = []")
        case True
        with 1(2) bl f have rec: "loop e cs sp limit index k (sleep 5 w1) = Some res" by simp
        have "distinct (map page_id (page_new (sleep 5 w1)))"
          using dist p1 by (simp add: sleep_def)
        with 1(1)[OF rec] lim res below show ?thesis by blast
      next
        case False
        show ?thesis
        proof (cases "process_batch e index objects w1")
          case None
          with 1(2) bl f False show ?thesis by simp
        next
          case (Some b)
          obtain r2 w2 where b: "b = (r2, w2)" by (cases b)
          show ?thesis
          proof (cases r2)
            case (Inl err)
            with 1(2) bl f False Some b res show ?thesis by simp
          next
            case (Inr u)
            with 1(2) bl f False Some b
            have rec: "loop e cs sp limit (index + 1) (k + length objects) w2 = Some res" by simp
            from Some b have "process_batch e index objects w1 = Some (r2, w2)" by simp
            from process_batch_ids(1)[OF this] p1 dist
            have d2: "distinct (map page_id (page_new w2))" by simp
            from 1(1)[OF rec] lim res d2
            have ih: "(L \<le> int (k + length objects) \<longrightarrow> n = k + length objects)
                \<and> (int (k + length objects) < L \<longrightarrow> L \<le> int n \<and> int n < L + int cs)"
              by blast
            from ih below len show ?thesis by (cases "L \<le> int (k + length objects)") auto
          qed
        qed
      qed
    qed
  qed
qed










lemmas loop_eval = worker_loop.simps below_limit_def



text \<open>
  Claim C10. The loop tests the limit only at the head of an iteration and claims
  \<open>chunk_size\<close> jobs whatever is left of the limit. With \<open>id\<close> a key of \<open>page_new\<close>, a
  limit \<open>L\<close> that is a number of jobs (not negative) and a chunk size of at least 1,
  the count \<open>n\<close> with which the loop of \<open>worker_run\<close> ends is at least \<open>L\<close> and at most
  \<open>L + chunk_size - 1\<close>.
\<close>

theorem worker_loop_overshoot:
  "worker_loop e chunk_size sp (Some L) index 0 w = Some (Inr n, w')
   \<and> distinct (map page_id (page_new w)) \<and> 0 \<le> L \<and> 0 < chunk_size
   \<longrightarrow> L \<le> int n \<and> int n \<le> L + int chunk_size - 1"
proof
  assume a: "worker_loop e chunk_size sp (Some L) index 0 w = Some (Inr n, w')
   \<and> distinct (map page_id (page_new w)) \<and> 0 \<le> L \<and> 0 < chunk_size"
  then have run: "worker_loop e chunk_size sp (Some L) index 0 w = Some (Inr n, w')"
    and dist: "distinct (map page_id (page_new w))" by simp_all
  from worker_loop_count[OF run] dist
  have "(L \<le> int 0 \<longrightarrow> n = 0) \<and> (int 0 < L \<longrightarrow> L \<le> int n \<and> int n < L + int chunk_size)"
    by blast
  with a show "L \<le> int n \<and> int n \<le> L + int chunk_size - 1"
    by (cases "L \<le> 0") auto
qed

text \<open>The example store, chunks of 2 and a limit of 3: the loop ends with 4 jobs done.\<close>

theorem worker_loop_overshoot_witness:
  "map_option fst (worker_loop example_env 2 False (Some 3) 0 0 example_world) = Some (Inr 4)
   \<and> distinct (map page_id (page_new example_world)) \<and> (0::int) \<le> 3 \<and> (0::nat) < 2
   \<and> (3::int) \<le> int 4 \<and> int 4 \<le> 3 + int 2 - 1"
proof -
  have ev: "map_option fst (worker_loop example_env 2 False (Some 3) 0 0 example_world) = Some (Inr 4)"
    by (simp add: loop_eval pool_map.simps for_each.simps apply_statement.simps
          queue_eval batch_eval limiter_eval example_defs)
  then obtain w' where run: "worker_loop example_env 2 False (Some 3) 0 0 example_world = Some (Inr 4, w')"
    by auto
  have d: "distinct (map page_id (page_new example_world))"
    by (simp add: example_defs)
  from worker_loop_overshoot[of example_env 2 False 3 0 example_world 4 w'] run d
  have "(3::int) \<le> int 4 \<and> int 4 \<le> 3 + int 2 - 1"
    by simp
  with ev d show ?thesis by simp
qed

end
